theory Spec2Isabelle
  imports Complex_Main
begin

section \<open>The multi-compartment cell of \<^verbatim>\<open>neurax/modules/cell.py\<close>\<close>

text \<open>
  The class \<^verbatim>\<open>Cell\<close> holds a tree of branches, each cut into \<^verbatim>\<open>nseg\<close> compartments, and
  assembles the axial conductances at the branch points. Arrays of floating-point numbers are
  modelled as lists of exact reals: the theorems below are about which expression is stored
  where, not about rounding. A two-dimensional array of shape \<^verbatim>\<open>(nbranches, nseg)\<close> is the list
  of its rows.
\<close>

subsection \<open>Exceptions and sequencing\<close>

datatype pyerr = AssertionError | IndexError | KeyError | TypeError | ValueError

definition bind_err :: "pyerr + 'a \<Rightarrow> ('a \<Rightarrow> pyerr + 'b) \<Rightarrow> pyerr + 'b" where
  "bind_err m f = (case m of Inl e \<Rightarrow> Inl e | Inr x \<Rightarrow> f x)"

subsection \<open>Array operations\<close>

text \<open>
  \<^verbatim>\<open>jnp.reshape(x, (nbranches, nseg))\<close> cuts a flat vector into rows in row-major order and
  raises when the sizes do not fit; \<^verbatim>\<open>flatten(order="C")\<close> lays the rows out one after another.
\<close>

definition reshape :: "'a list \<Rightarrow> nat \<Rightarrow> nat \<Rightarrow> pyerr + 'a list list" where
  "reshape xs nb ns =
     (if length xs = nb * ns
      then Inr (map (\<lambda>r. take ns (drop (r * ns) xs)) [0..<nb])
      else Inl TypeError)"

definition flatten :: "'a list list \<Rightarrow> 'a list" where
  "flatten m = concat m"

text \<open>
  Indexing with an index that is itself an array element follows the NumPy convention for
  negative indices (they count from the end). An index that is still out of range is clamped
  when a value is read and skipped when a value is updated, as JAX documents it. The theorems
  below only use indices that are in range.
\<close>

definition norm_index :: "nat \<Rightarrow> int \<Rightarrow> int" where
  "norm_index n i = (if i < 0 then i + int n else i)"

definition gather :: "'a list \<Rightarrow> int \<Rightarrow> 'a" where
  "gather xs i = xs ! nat (max 0 (min (int (length xs) - 1) (norm_index (length xs) i)))"

definition at_add :: "real list list \<Rightarrow> int \<Rightarrow> int \<Rightarrow> real \<Rightarrow> real list list" where
  "at_add m i j v =
     (let r = norm_index (length m) i in
      if 0 \<le> r \<and> r < int (length m) then
        (let row = m ! nat r; c = norm_index (length row) j in
         if 0 \<le> c \<and> c < int (length row)
         then m[nat r := row[nat c := row ! nat c + v]]
         else m)
      else m)"

subsection \<open>The object\<close>

text \<open>
  An attribute that is assigned only by a later method call is either not there at all, bound
  to \<^verbatim>\<open>None\<close>, or bound to a value.
\<close>

datatype 'a attr = Unset | PyNone | Val 'a

record compartment =
  channels :: "string list"

record branch =
  branch_nseg :: nat
  compartments :: "compartment list"
  branch_coupling_conds_bwd :: "real list"
  branch_coupling_conds_fwd :: "real list"
  branch_summed_coupling_conds :: "real list"

text \<open>A row of the node table: \<^verbatim>\<open>comp_index\<close>, \<^verbatim>\<open>branch_index\<close>, \<^verbatim>\<open>cell_index\<close>.\<close>

type_synonym node = "nat \<times> nat \<times> nat"

record cell =
  params :: "string \<rightharpoonup> real list"
  inherited :: "string list"
  branches :: "branch list"
  nseg :: nat
  nbranches :: nat
  parents :: "int list"
  nodes :: "node list attr"
  coupling_conds_bwd :: "real list list"
  coupling_conds_fwd :: "real list list"
  summed_coupling_conds :: "real list list"
  initialized_morph :: bool
  initialized_conds :: bool
  branch_conds_fwd :: "real list attr"
  branch_conds_bwd :: "real list attr"
  num_kids :: "int list attr"
  levels :: "nat list attr"
  branches_in_each_level :: "nat list list attr"
  parents_in_each_level :: "int list list attr"
  kid_inds_in_each_level :: "int list list attr"

subsection \<open>Conductance assembly\<close>

definition compute_coupling_cond :: "real \<Rightarrow> real \<Rightarrow> real \<Rightarrow> real \<Rightarrow> real \<Rightarrow> real" where
  "compute_coupling_cond rad1 rad2 r_a l1 l2 =
     rad1 * rad2 ^ 2 / r_a / (rad2 ^ 2 * l1 + rad1 ^ 2 * l2) / l1"

definition lookup_param :: "cell \<Rightarrow> string \<Rightarrow> pyerr + real list" where
  "lookup_param self key = (case params self key of None \<Rightarrow> Inl KeyError | Some v \<Rightarrow> Inr v)"

text \<open>
  The junction conductances before the unit conversion, one entry for each branch
  \<^verbatim>\<open>1, ..., nbranches - 1\<close> (lines 92 to 99). Index \<^verbatim>\<open>1\<close> is the last compartment of the
  branch, index \<^verbatim>\<open>2\<close> the first compartment of its parent.
\<close>

definition kid_branches :: "cell \<Rightarrow> nat list" where
  "kid_branches self = [1..<nbranches self]"

definition parent_of :: "cell \<Rightarrow> nat \<Rightarrow> int" where
  "parent_of self b = gather (parents self) (int b)"

definition raw_branch_conds_bwd ::
    "cell \<Rightarrow> real list list \<Rightarrow> real list list \<Rightarrow> real list list \<Rightarrow> real list" where
  "raw_branch_conds_bwd self axial_resistivity radiuses lengths =
     map (\<lambda>b.
       let rad1 = last (radiuses ! b);
           rad2 = hd (gather radiuses (parent_of self b));
           l1 = last (lengths ! b);
           l2 = hd (gather lengths (parent_of self b));
           r_a1 = last (axial_resistivity ! b)
       in compute_coupling_cond rad2 rad1 r_a1 l2 l1) (kid_branches self)"

definition raw_branch_conds_fwd ::
    "cell \<Rightarrow> real list list \<Rightarrow> real list list \<Rightarrow> real list list \<Rightarrow> real list" where
  "raw_branch_conds_fwd self axial_resistivity radiuses lengths =
     map (\<lambda>b.
       let rad1 = last (radiuses ! b);
           rad2 = hd (gather radiuses (parent_of self b));
           l1 = last (lengths ! b);
           l2 = hd (gather lengths (parent_of self b));
           r_a2 = hd (gather axial_resistivity (parent_of self b))
       in compute_coupling_cond rad1 rad2 r_a2 l1 l2) (kid_branches self)"

text \<open>The loop of lines 105 to 111, one iteration for the branch \<open>b\<close>.\<close>

definition add_branch_conds ::
    "cell \<Rightarrow> real list \<Rightarrow> real list \<Rightarrow> nat \<Rightarrow> real list list \<Rightarrow> real list list" where
  "add_branch_conds self fwd bwd b summed =
     at_add (at_add summed (int b) (- 1) (fwd ! (b - 1))) (parent_of self b) 0 (bwd ! (b - 1))"

text \<open>
  \<^verbatim>\<open>init_branch_conds\<close>. The three parameter vectors are looked up and reshaped in the order of
  the source; an axis of size zero cannot be indexed with \<^verbatim>\<open>-1\<close> or \<^verbatim>\<open>0\<close>, and an empty
  \<^verbatim>\<open>parents\<close> cannot be read.
\<close>

definition init_branch_conds :: "cell \<Rightarrow> pyerr + cell" where
  "init_branch_conds self =
     bind_err (lookup_param self ''axial_resistivity'') (\<lambda>p_ra.
     bind_err (reshape p_ra (nbranches self) (nseg self)) (\<lambda>axial_resistivity.
     bind_err (lookup_param self ''radius'') (\<lambda>p_rad.
     bind_err (reshape p_rad (nbranches self) (nseg self)) (\<lambda>radiuses.
     bind_err (lookup_param self ''length'') (\<lambda>p_len.
     bind_err (reshape p_len (nbranches self) (nseg self)) (\<lambda>lengths.
       if nseg self = 0 \<or> (kid_branches self \<noteq> [] \<and> parents self = []) then Inl IndexError
       else
         let bwd = map (\<lambda>g. g * 10 ^ 7)
                     (raw_branch_conds_bwd self axial_resistivity radiuses lengths);
             fwd = map (\<lambda>g. g * 10 ^ 7)
                     (raw_branch_conds_fwd self axial_resistivity radiuses lengths);
             summed = fold (add_branch_conds self fwd bwd) (kid_branches self)
                        (summed_coupling_conds self)
         in Inr (self\<lparr>summed_coupling_conds := summed,
                      branch_conds_fwd := Val (0 # fwd),
                      branch_conds_bwd := Val (0 # bwd),
                      initialized_conds := True\<rparr>)))))))"


subsection \<open>Construction and attribute lookup\<close>




text \<open>
  \<^verbatim>\<open>Cell.__getattr__\<close> (lines 50 to 52) is the hook that Python calls when the normal lookup
  of an attribute fails. Reading \<^verbatim>\<open>self.nodes\<close> inside it goes through the same lookup.
\<close>

datatype branch_view = BranchView cell "node list attr"

definition Cell_getattr :: "cell \<Rightarrow> string \<Rightarrow> pyerr + branch_view" where
  "Cell_getattr self key =
     (if key \<noteq> ''branch'' then Inl AssertionError
      else (case nodes self of
              Unset \<Rightarrow> Inl AssertionError
            | tbl \<Rightarrow> Inr (BranchView self tbl)))"

text \<open>
  The names that the normal lookup finds: the instance attributes assigned by \<^verbatim>\<open>__init__\<close>, the
  ones assigned by the two init methods once they are bound, the names defined in the class
  body, and whatever the base classes provide (\<open>inherited\<close>).
\<close>

definition is_set :: "'a attr \<Rightarrow> bool" where
  "is_set a = (case a of Unset \<Rightarrow> False | _ \<Rightarrow> True)"

definition own_attrs :: "cell \<Rightarrow> string list" where
  "own_attrs self =
     [''branches'', ''nseg'', ''nbranches'', ''parents'', ''coupling_conds_bwd'',
      ''coupling_conds_fwd'', ''summed_coupling_conds'', ''initialized_morph'',
      ''initialized_conds'', ''cell_params'', ''cell_states'', ''__init__'', ''__getattr__'',
      ''init_morph'', ''init_branch_conds'', ''step'']
     @ (if is_set (nodes self) then [''nodes''] else [])
     @ (if is_set (branch_conds_fwd self) then [''branch_conds_fwd''] else [])
     @ (if is_set (branch_conds_bwd self) then [''branch_conds_bwd''] else [])
     @ (if is_set (num_kids self) then [''num_kids''] else [])
     @ (if is_set (levels self) then [''levels''] else [])
     @ (if is_set (branches_in_each_level self) then [''branches_in_each_level''] else [])
     @ (if is_set (parents_in_each_level self) then [''parents_in_each_level''] else [])
     @ (if is_set (kid_inds_in_each_level self) then [''kid_inds_in_each_level''] else [])"

definition has_attr :: "cell \<Rightarrow> string \<Rightarrow> bool" where
  "has_attr self key \<longleftrightarrow> key \<in> set (own_attrs self) \<or> key \<in> set (inherited self)"

datatype attr_value = Bound string | View branch_view

definition getattr :: "cell \<Rightarrow> string \<Rightarrow> pyerr + attr_value" where
  "getattr self key =
     (if has_attr self key then Inr (Bound key)
      else (case Cell_getattr self key of Inl e \<Rightarrow> Inl e | Inr v \<Rightarrow> Inr (View v)))"

text \<open>
  Reading one of the late attributes in a method body: a bound attribute gives its value
  (\<open>None\<close> for Python's \<^verbatim>\<open>None\<close>), an unbound one goes to \<^verbatim>\<open>__getattr__\<close>, whose view is not an
  array.
\<close>

definition read_attr :: "cell \<Rightarrow> string \<Rightarrow> 'a attr \<Rightarrow> pyerr + 'a option" where
  "read_attr self key a =
     (case a of
        Val v \<Rightarrow> Inr (Some v)
      | PyNone \<Rightarrow> Inr None
      | Unset \<Rightarrow> (case Cell_getattr self key of Inl e \<Rightarrow> Inl e | Inr _ \<Rightarrow> Inl TypeError))"


subsection \<open>Morphology indexing\<close>

text \<open>
  \<^verbatim>\<open>init_morph\<close> calls five functions of \<^verbatim>\<open>neurax.cell\<close>, which is not part of this file; they
  are parameters here, each of them free to raise. \<^verbatim>\<open>jnp.unique\<close> gives the sorted distinct
  values. Reading from an empty array raises.
\<close>

record morph_helpers =
  compute_num_kids :: "int list \<Rightarrow> pyerr + int list"
  compute_levels :: "int list \<Rightarrow> pyerr + nat list"
  compute_branches_in_level :: "nat list \<Rightarrow> pyerr + nat list list"
  compute_index_of_kid :: "int list \<Rightarrow> pyerr + int list"
  cum_indizes_of_kids :: "int list list \<Rightarrow> nat \<Rightarrow> int list \<Rightarrow> pyerr + int list list"

definition unique :: "int list \<Rightarrow> int list" where
  "unique xs = sort (remdups xs)"

definition gather_all :: "'a list \<Rightarrow> nat list \<Rightarrow> pyerr + 'a list" where
  "gather_all xs idx =
     (if xs = [] \<and> idx \<noteq> [] then Inl IndexError
      else Inr (map (\<lambda>i. gather xs (int i)) idx))"

fun collect_err :: "(pyerr + 'a) list \<Rightarrow> pyerr + 'a list" where
  "collect_err [] = Inr []"
| "collect_err (x # xs) =
     bind_err x (\<lambda>v. bind_err (collect_err xs) (\<lambda>vs. Inr (v # vs)))"

definition init_morph :: "morph_helpers \<Rightarrow> cell \<Rightarrow> pyerr + cell" where
  "init_morph h self =
     bind_err (compute_num_kids h (parents self)) (\<lambda>nk.
     bind_err (compute_levels h (parents self)) (\<lambda>lv.
     bind_err (compute_branches_in_level h lv) (\<lambda>bil.
     bind_err (collect_err (map (gather_all (parents self)) bil)) (\<lambda>pars.
     bind_err (compute_index_of_kid h (parents self)) (\<lambda>ind_of_kids.
     bind_err (collect_err (map (gather_all ind_of_kids) bil)) (\<lambda>ind_of_kids_in_each_level.
     bind_err (cum_indizes_of_kids h ind_of_kids_in_each_level 4 [0]) (\<lambda>kid_inds.
       Inr (self\<lparr>num_kids := Val nk,
                  levels := Val lv,
                  branches_in_each_level := Val bil,
                  parents_in_each_level := Val (map unique pars),
                  kid_inds_in_each_level := Val kid_inds,
                  initialized_morph := True\<rparr>))))))))"

text \<open>
  Modelled from the spec: \<^verbatim>\<open>compute_levels\<close> of \<^verbatim>\<open>neurax.cell\<close> is missing from the sources.
  The spec gives the root level 0 and every other branch the level of its parent plus one, and
  makes a malformed \<^verbatim>\<open>parents\<close> (out of range, cyclic) a fatal structural error. The level of a
  branch is found by walking up its parents; a walk through \<open>n\<close> branches that has not reached
  the root after \<open>n\<close> steps is on a cycle.
\<close>

fun level_of :: "int list \<Rightarrow> nat \<Rightarrow> nat \<Rightarrow> nat option" where
  "level_of ps 0 i = None"
| "level_of ps (Suc fuel) i =
     (if length ps \<le> i then None
      else if ps ! i = - 1 then Some 0
      else if ps ! i < 0 then None
      else map_option Suc (level_of ps fuel (nat (ps ! i))))"

definition compute_levels_spec :: "int list \<Rightarrow> pyerr + nat list" where
  "compute_levels_spec ps =
     (let ls = map (level_of ps (length ps)) [0..<length ps]
      in if list_all (\<lambda>l. l \<noteq> None) ls then Inr (map the ls) else Inl ValueError)"

subsection \<open>One time step\<close>

text \<open>
  \<^verbatim>\<open>step\<close> hands its work to three collaborators that are not part of this file: the channel
  update, the stimulus and the tree solver. They are parameters. The method returns the new
  state together with the object, which \<^verbatim>\<open>init_branch_conds\<close> may have changed.
\<close>

type_synonym state = "string \<rightharpoonup> real list"

record solver_args =
  sa_voltages :: "real list list"
  sa_voltage_terms :: "real list list"
  sa_constant_terms :: "real list list"
  sa_coupling_conds_bwd :: "real list list"
  sa_coupling_conds_fwd :: "real list list"
  sa_summed_coupling_conds :: "real list list"
  sa_branch_cond_fwd :: "real list option"
  sa_branch_cond_bwd :: "real list option"
  sa_num_branches :: nat
  sa_parents :: "int list"
  sa_kid_inds_in_each_level :: "int list list option"
  sa_max_num_kids :: nat
  sa_parents_in_each_level :: "int list list option"
  sa_branches_in_each_level :: "nat list list option"
  sa_tridiag_solver :: string
  sa_delta_t :: real

record collaborators =
  step_channels :: "state \<Rightarrow> real \<Rightarrow> string list \<Rightarrow> state \<Rightarrow> state list \<times> real list \<times> real list"
  get_external_input :: "real list \<Rightarrow> int list \<Rightarrow> real list \<Rightarrow> real list \<Rightarrow> real list \<Rightarrow> real list"
  step_voltages :: "solver_args \<Rightarrow> real list list"

definition first_channels :: "cell \<Rightarrow> pyerr + string list" where
  "first_channels self =
     (case branches self of
        [] \<Rightarrow> Inl IndexError
      | b # _ \<Rightarrow> (case compartments b of [] \<Rightarrow> Inl IndexError | c # _ \<Rightarrow> Inr (channels c)))"

definition mat_add :: "real list list \<Rightarrow> real list list \<Rightarrow> real list list" where
  "mat_add a b = map2 (map2 (+)) a b"

definition step ::
    "collaborators \<Rightarrow> cell \<Rightarrow> state \<Rightarrow> real \<Rightarrow> int list \<Rightarrow> real list \<Rightarrow> pyerr + cell \<times> state" where
  "step ext self0 u dt i_inds i_current =
     bind_err (read_attr self0 ''branch_conds_fwd'' (branch_conds_fwd self0)) (\<lambda>bcf.
     bind_err (case bcf of None \<Rightarrow> init_branch_conds self0 | Some _ \<Rightarrow> Inr self0) (\<lambda>self.
     bind_err (case u ''voltages'' of None \<Rightarrow> Inl KeyError | Some v \<Rightarrow> Inr v) (\<lambda>voltages.
     bind_err (first_channels self) (\<lambda>chans.
     case step_channels ext u dt chans (params self) of
       (new_channel_states, v_terms, const_terms) \<Rightarrow>
     bind_err (lookup_param self ''radius'') (\<lambda>rad.
     bind_err (lookup_param self ''length'') (\<lambda>len.
     bind_err (reshape voltages (nbranches self) (nseg self)) (\<lambda>vs.
     bind_err (reshape v_terms (nbranches self) (nseg self)) (\<lambda>vts.
     bind_err (reshape const_terms (nbranches self) (nseg self)) (\<lambda>cts.
     bind_err (reshape (get_external_input ext voltages i_inds i_current rad len)
                 (nbranches self) (nseg self)) (\<lambda>i_ext.
     bind_err (read_attr self ''branch_conds_fwd'' (branch_conds_fwd self)) (\<lambda>fwd.
     bind_err (read_attr self ''branch_conds_bwd'' (branch_conds_bwd self)) (\<lambda>bwd.
     bind_err (read_attr self ''kid_inds_in_each_level'' (kid_inds_in_each_level self)) (\<lambda>kids.
     bind_err (read_attr self ''parents_in_each_level'' (parents_in_each_level self)) (\<lambda>pil.
     bind_err (read_attr self ''branches_in_each_level'' (branches_in_each_level self)) (\<lambda>bil.
       let new_voltages = step_voltages ext
             \<lparr>sa_voltages = vs, sa_voltage_terms = vts, sa_constant_terms = mat_add cts i_ext,
              sa_coupling_conds_bwd = coupling_conds_bwd self,
              sa_coupling_conds_fwd = coupling_conds_fwd self,
              sa_summed_coupling_conds = summed_coupling_conds self,
              sa_branch_cond_fwd = fwd, sa_branch_cond_bwd = bwd,
              sa_num_branches = nbranches self, sa_parents = parents self,
              sa_kid_inds_in_each_level = kids, sa_max_num_kids = 4,
              sa_parents_in_each_level = pil, sa_branches_in_each_level = bil,
              sa_tridiag_solver = ''thomas'', sa_delta_t = dt\<rparr>
       in case new_channel_states of
            [] \<Rightarrow> Inl IndexError
          | final_state # _ \<Rightarrow>
              Inr (self, final_state(''voltages'' \<mapsto> flatten new_voltages)))))))))))))))))"


subsection \<open>Well-formed cells\<close>

text \<open>
  The value of a parameter in compartment \<open>j\<close> of branch \<open>b\<close>: the flat parameter vector is
  laid out branch after branch.
\<close>

definition param_at :: "cell \<Rightarrow> string \<Rightarrow> nat \<Rightarrow> nat \<Rightarrow> real" where
  "param_at self key b j =
     (case params self key of None \<Rightarrow> 0 | Some v \<Rightarrow> v ! (b * nseg self + j))"

definition param_ok :: "cell \<Rightarrow> string \<Rightarrow> bool" where
  "param_ok self key =
     (case params self key of
        None \<Rightarrow> False
      | Some v \<Rightarrow> length v = nbranches self * nseg self)"

text \<open>
  A cell as the constructor and the parameter registry leave it: at least one branch, at
  least one compartment in a branch, one value of each parameter for every compartment, a
  matrix of summed conductances of shape \<^verbatim>\<open>(nbranches, nseg)\<close>, and a parent in range for every
  branch but the root.
\<close>

definition wf_cell :: "cell \<Rightarrow> bool" where
  "wf_cell self \<longleftrightarrow>
     1 \<le> nbranches self \<and> 1 \<le> nseg self \<and>
     param_ok self ''axial_resistivity'' \<and> param_ok self ''radius'' \<and>
     param_ok self ''length'' \<and>
     length (summed_coupling_conds self) = nbranches self \<and>
     (\<forall>row \<in> set (summed_coupling_conds self). length row = nseg self) \<and>
     length (parents self) = nbranches self \<and>
     (\<forall>b \<in> set (kid_branches self).
        0 \<le> parents self ! b \<and> parents self ! b < int (nbranches self))"

text \<open>Radius, length and resistivity are positive, so that no division is by zero.\<close>

definition positive_params :: "cell \<Rightarrow> bool" where
  "positive_params self \<longleftrightarrow>
     (\<forall>key \<in> set [''axial_resistivity'', ''radius'', ''length''].
        case params self key of None \<Rightarrow> False | Some v \<Rightarrow> \<forall>x \<in> set v. 0 < x)"

text \<open>The branches whose parent is \<open>p\<close>.\<close>

definition children :: "cell \<Rightarrow> nat \<Rightarrow> nat list" where
  "children self p = filter (\<lambda>k. parents self ! k = int p) (kid_branches self)"

text \<open>
  A valid \<^verbatim>\<open>parents\<close> array for \<open>nb\<close> branches: branch 0 is the root and carries \<open>-1\<close>, every
  other entry is a branch index, and no branch is its own ancestor.
\<close>

definition valid_parents :: "nat \<Rightarrow> int list \<Rightarrow> bool" where
  "valid_parents nb ps \<longleftrightarrow>
     length ps = nb \<and> 0 < nb \<and> ps ! 0 = - 1 \<and>
     (\<forall>i \<in> {1..<nb}. 0 \<le> ps ! i \<and> ps ! i < int nb) \<and>
     (\<forall>i \<in> {1..<nb}. \<forall>k \<in> {1..nb}. ((\<lambda>j. nat (ps ! j)) ^^ k) i \<noteq> i)"

subsection \<open>Example cells\<close>

text \<open>
  A cell with the given shape, parents, parameter vectors and summed conductances, on which
  neither init method has run and no late attribute is bound.
\<close>

definition example_cell ::
    "nat \<Rightarrow> nat \<Rightarrow> int list \<Rightarrow> real list \<Rightarrow> real list \<Rightarrow> real list \<Rightarrow> real list list \<Rightarrow> cell" where
  "example_cell nb ns ps rad len ra summed =
     \<lparr>params = [''radius'' \<mapsto> rad, ''length'' \<mapsto> len, ''axial_resistivity'' \<mapsto> ra],
      inherited = [''params'', ''states'', ''step_channels'', ''step_voltages''],
      branches = [], nseg = ns, nbranches = nb, parents = ps,
      nodes = Val (map (\<lambda>i. (i, i div ns, 0)) [0..<ns * nb]),
      coupling_conds_bwd = [], coupling_conds_fwd = [],
      summed_coupling_conds = summed,
      initialized_morph = False, initialized_conds = False,
      branch_conds_fwd = Unset, branch_conds_bwd = Unset,
      num_kids = Unset, levels = Unset, branches_in_each_level = Unset,
      parents_in_each_level = Unset, kid_inds_in_each_level = Unset\<rparr>"

text \<open>
  A root with one child, one compartment each. The root compartment has radius 2, length 4
  and resistivity 2; the child compartment has radius 1, length 1 and resistivity 1.
\<close>

definition two_branch_cell :: cell where
  "two_branch_cell = example_cell 2 1 [- 1, 0] [2, 1] [4, 1] [2, 1] [[3], [5]]"

text \<open>A chain of three branches with one compartment each and unit geometry.\<close>

definition chain_cell :: cell where
  "chain_cell = example_cell 3 1 [- 1, 0, 1] [1, 1, 1] [1, 1, 1] [1, 1, 1] [[1], [2], [3]]"

text \<open>A root with two children, two compartments in each branch, unit geometry.\<close>

definition fork_cell :: cell where
  "fork_cell = example_cell 3 2 [- 1, 0, 0] [1, 1, 1, 1, 1, 1] [1, 1, 1, 1, 1, 1]
     [1, 1, 1, 1, 1, 1] [[1, 2], [3, 4], [5, 6]]"

text \<open>
  A root whose child, branch 2, is the parent of branch 1: the branches are not numbered in the
  order of their levels.
\<close>

definition unsorted_cell :: cell where
  "unsorted_cell = example_cell 3 1 [- 1, 2, 0] [1, 1, 1] [1, 1, 1] [1, 1, 1] [[0], [0], [0]]"


text \<open>
  Helper functions for the examples. The levels are the ones defined above; the number of
  children, the grouping of the branches by level and the position of a branch among the
  children of its parent follow the description of the morphology indexer; the table of child
  indices is passed on as it is.
\<close>

definition example_helpers :: morph_helpers where
  "example_helpers =
     \<lparr>compute_num_kids =
        (\<lambda>ps. Inr (map (\<lambda>i. int (length (filter (\<lambda>p. p = int i) ps))) [0..<length ps])),
      compute_levels = compute_levels_spec,
      compute_branches_in_level =
        (\<lambda>lv. Inr (map (\<lambda>l. filter (\<lambda>i. lv ! i = l) [0..<length lv])
                      [0..<Suc (fold max lv 0)])),
      compute_index_of_kid =
        (\<lambda>ps. Inr (map (\<lambda>i. int (length (filter (\<lambda>k. ps ! k = ps ! i) [0..<i])))
                      [0..<length ps])),
      cum_indizes_of_kids = (\<lambda>ks max_num_kids reset_at. Inr ks)\<rparr>"





section \<open>Properties\<close>

subsection \<open>Reshaping and indexing\<close>

lemma reshape_ok:
  "length xs = nb * ns \<Longrightarrow> reshape xs nb ns = Inr (map (\<lambda>r. take ns (drop (r * ns) xs)) [0..<nb])"
  by (simp add: reshape_def)

lemma row_bound:
  fixes b nb ns :: nat
  assumes "b < nb"
  shows "b * ns + ns \<le> nb * ns"
proof -
  have "Suc b \<le> nb" using assms by simp
  then have "Suc b * ns \<le> nb * ns" by (rule mult_le_mono1)
  then show ?thesis by (simp add: add.commute)
qed

lemma reshape_row_length:
  assumes "reshape xs nb ns = Inr m" "b < nb"
  shows "length (m ! b) = ns"
proof -
  have len: "length xs = nb * ns" and m: "m = map (\<lambda>r. take ns (drop (r * ns) xs)) [0..<nb]"
    using assms(1) by (auto simp: reshape_def split: if_splits)
  have "b * ns + ns \<le> length xs" using row_bound[OF assms(2)] len by simp
  then show ?thesis using assms(2) by (simp add: m)
qed

lemma reshape_nth:
  assumes "reshape xs nb ns = Inr m" "b < nb" "j < ns"
  shows "m ! b ! j = xs ! (b * ns + j)"
proof -
  have len: "length xs = nb * ns" and m: "m = map (\<lambda>r. take ns (drop (r * ns) xs)) [0..<nb]"
    using assms(1) by (auto simp: reshape_def split: if_splits)
  have "b * ns + ns \<le> length xs" using row_bound[OF assms(2)] len by simp
  then show ?thesis using assms(2,3) by (simp add: m)
qed

lemma reshape_length: "reshape xs nb ns = Inr m \<Longrightarrow> length m = nb"
  by (auto simp: reshape_def split: if_splits)

lemma reshape_last:
  assumes "reshape xs nb ns = Inr m" "b < nb" "0 < ns"
  shows "last (m ! b) = xs ! (b * ns + (ns - 1))"
proof -
  have l: "length (m ! b) = ns" using assms reshape_row_length by blast
  then have "m ! b \<noteq> []" using assms(3) by auto
  then have "last (m ! b) = m ! b ! (ns - 1)" using l by (simp add: last_conv_nth)
  then show ?thesis using reshape_nth[OF assms(1,2), of "ns - 1"] assms(3) by simp
qed

lemma reshape_hd:
  assumes "reshape xs nb ns = Inr m" "b < nb" "0 < ns"
  shows "hd (m ! b) = xs ! (b * ns)"
proof -
  have l: "length (m ! b) = ns" using assms reshape_row_length by blast
  then have "m ! b \<noteq> []" using assms(3) by auto
  then have "hd (m ! b) = m ! b ! 0" by (simp add: hd_conv_nth)
  then show ?thesis using reshape_nth[OF assms(1,2), of 0] assms(3) by simp
qed

lemma gather_in_range:
  "0 \<le> i \<Longrightarrow> i < int (length xs) \<Longrightarrow> gather xs i = xs ! nat i"
proof -
  assume a: "0 \<le> i" "i < int (length xs)"
  then have "max 0 (min (int (length xs) - 1) (norm_index (length xs) i)) = i"
    by (simp add: norm_index_def)
  then show ?thesis by (simp add: gather_def)
qed


lemma at_add_length: "length (at_add m i j v) = length m"
  by (simp add: at_add_def Let_def)

lemma at_add_rows:
  assumes "\<forall>row \<in> set m. length row = ns"
  shows "\<forall>row \<in> set (at_add m i j v). length row = ns"
proof
  fix row assume r: "row \<in> set (at_add m i j v)"
  show "length row = ns"
  proof (cases "at_add m i j v = m")
    case True
    then show ?thesis using r assms by simp
  next
    case False
    then obtain r0 c0 where upd: "at_add m i j v = m[r0 := (m ! r0)[c0 := m ! r0 ! c0 + v]]"
      and r0: "r0 < length m"
      by (auto simp: at_add_def Let_def split: if_splits)
    have "row \<in> insert ((m ! r0)[c0 := m ! r0 ! c0 + v]) (set m)"
      using r upd set_update_subset_insert by fastforce
    moreover have "length (m ! r0) = ns" using assms r0 by simp
    ultimately show ?thesis using assms by auto
  qed
qed

lemma at_add_nth_last:
  assumes "0 \<le> i" "i < int (length m)" "\<forall>row \<in> set m. length row = ns" "0 < ns"
    "p < length m" "q < ns"
  shows "at_add m i (- 1) v ! p ! q = m ! p ! q + (if p = nat i \<and> q = ns - 1 then v else 0)"
proof -
  have len: "length (m ! nat i) = ns" using assms(1,2,3) by simp
  have c: "norm_index ns (- 1) = int ns - 1" by (simp add: norm_index_def)
  have "at_add m i (- 1) v = m[nat i := (m ! nat i)[ns - 1 := m ! nat i ! (ns - 1) + v]]"
    using assms(1,2,4) len c by (auto simp: at_add_def norm_index_def Let_def nat_diff_distrib)
  then show ?thesis using assms len by (auto simp: nth_list_update)
qed

lemma at_add_nth_first:
  assumes "0 \<le> i" "i < int (length m)" "\<forall>row \<in> set m. length row = ns" "0 < ns"
    "p < length m" "q < ns"
  shows "at_add m i 0 v ! p ! q = m ! p ! q + (if p = nat i \<and> q = 0 then v else 0)"
proof -
  have len: "length (m ! nat i) = ns" using assms(1,2,3) by simp
  have "at_add m i 0 v = m[nat i := (m ! nat i)[0 := m ! nat i ! 0 + v]]"
    using assms(1,2,4) len by (auto simp: at_add_def norm_index_def Let_def)
  then show ?thesis using assms len by (auto simp: nth_list_update)
qed


lemma add_branch_conds_length: "length (add_branch_conds self fwd bwd b m) = length m"
  by (simp add: add_branch_conds_def at_add_length)

lemma add_branch_conds_rows:
  "\<forall>row \<in> set m. length row = ns \<Longrightarrow>
   \<forall>row \<in> set (add_branch_conds self fwd bwd b m). length row = ns"
  unfolding add_branch_conds_def by (intro at_add_rows)

lemma add_branch_conds_nth:
  assumes "\<forall>row \<in> set m. length row = ns" "0 < ns"
    "1 \<le> b" "b < length m" "0 \<le> parent_of self b" "parent_of self b < int (length m)"
    "p < length m" "q < ns"
  shows "add_branch_conds self fwd bwd b m ! p ! q =
     m ! p ! q + (if b = p \<and> q = ns - 1 then fwd ! (b - 1) else 0)
               + (if nat (parent_of self b) = p \<and> q = 0 then bwd ! (b - 1) else 0)"
proof -
  let ?m1 = "at_add m (int b) (- 1) (fwd ! (b - 1))"
  have r1: "\<forall>row \<in> set ?m1. length row = ns" using assms(1) by (rule at_add_rows)
  have l1: "length ?m1 = length m" by (rule at_add_length)
  have e1: "?m1 ! p ! q = m ! p ! q + (if p = nat (int b) \<and> q = ns - 1 then fwd ! (b - 1) else 0)"
    using assms by (intro at_add_nth_last) auto
  have e2: "at_add ?m1 (parent_of self b) 0 (bwd ! (b - 1)) ! p ! q =
      ?m1 ! p ! q + (if p = nat (parent_of self b) \<and> q = 0 then bwd ! (b - 1) else 0)"
    using assms r1 l1 by (intro at_add_nth_first) auto
  show ?thesis unfolding add_branch_conds_def e2 e1 by auto
qed

lemma fold_add_branch_conds_length:
  "length (fold (add_branch_conds self fwd bwd) bs m) = length m"
  by (induction bs arbitrary: m) (simp_all add: add_branch_conds_length)

lemma fold_add_branch_conds_rows:
  "\<forall>row \<in> set m. length row = ns \<Longrightarrow>
   \<forall>row \<in> set (fold (add_branch_conds self fwd bwd) bs m). length row = ns"
proof (induction bs arbitrary: m)
  case Nil
  then show ?case by simp
next
  case (Cons b bs)
  have "\<forall>row \<in> set (add_branch_conds self fwd bwd b m). length row = ns"
    using Cons.prems by (rule add_branch_conds_rows)
  then show ?case using Cons.IH by simp
qed

lemma fold_add_branch_conds_nth:
  assumes "\<forall>row \<in> set m. length row = ns" "0 < ns"
    "\<forall>b \<in> set bs. 1 \<le> b \<and> b < length m \<and> 0 \<le> parent_of self b \<and> parent_of self b < int (length m)"
    "p < length m" "q < ns"
  shows "fold (add_branch_conds self fwd bwd) bs m ! p ! q =
     m ! p ! q
     + sum_list (map (\<lambda>b. if b = p \<and> q = ns - 1 then fwd ! (b - 1) else 0) bs)
     + sum_list (map (\<lambda>b. if nat (parent_of self b) = p \<and> q = 0 then bwd ! (b - 1) else 0) bs)"
  using assms
proof (induction bs arbitrary: m)
  case Nil
  then show ?case by simp
next
  case (Cons b bs)
  let ?m' = "add_branch_conds self fwd bwd b m"
  have rows': "\<forall>row \<in> set ?m'. length row = ns"
    using Cons.prems(1) by (rule add_branch_conds_rows)
  have len': "length ?m' = length m" by (rule add_branch_conds_length)
  have step: "?m' ! p ! q =
     m ! p ! q + (if b = p \<and> q = ns - 1 then fwd ! (b - 1) else 0)
               + (if nat (parent_of self b) = p \<and> q = 0 then bwd ! (b - 1) else 0)"
    using Cons.prems by (intro add_branch_conds_nth) auto
  have "fold (add_branch_conds self fwd bwd) bs ?m' ! p ! q =
     ?m' ! p ! q
     + sum_list (map (\<lambda>b. if b = p \<and> q = ns - 1 then fwd ! (b - 1) else 0) bs)
     + sum_list (map (\<lambda>b. if nat (parent_of self b) = p \<and> q = 0 then bwd ! (b - 1) else 0) bs)"
    using Cons.prems rows' len' by (intro Cons.IH) auto
  then show ?case unfolding step by simp
qed


lemma wf_parent_of:
  assumes "wf_cell c" "b \<in> set (kid_branches c)"
  shows "parent_of c b = parents c ! b"
proof -
  have "b < length (parents c)" using assms by (auto simp: wf_cell_def kid_branches_def)
  then show ?thesis by (simp add: parent_of_def gather_in_range)
qed

lemma wf_parent_range:
  assumes "wf_cell c" "b \<in> set (kid_branches c)"
  shows "0 \<le> parents c ! b" "nat (parents c ! b) < nbranches c"
  using assms by (auto simp: wf_cell_def)

lemma wf_reshape:
  assumes "wf_cell c" "param_ok c key"
  shows "\<exists>v m. params c key = Some v \<and> reshape v (nbranches c) (nseg c) = Inr m
     \<and> length m = nbranches c
     \<and> (\<forall>b < nbranches c. last (m ! b) = param_at c key b (nseg c - 1)
           \<and> hd (m ! b) = param_at c key b 0)"
proof -
  from assms(2) obtain v where v: "params c key = Some v" "length v = nbranches c * nseg c"
    by (auto simp: param_ok_def split: option.splits)
  let ?m = "map (\<lambda>r. take (nseg c) (drop (r * nseg c) v)) [0..<nbranches c]"
  have r: "reshape v (nbranches c) (nseg c) = Inr ?m" using v(2) by (rule reshape_ok)
  have ns: "0 < nseg c" using assms(1) by (simp add: wf_cell_def)
  have "\<forall>b < nbranches c. last (?m ! b) = param_at c key b (nseg c - 1)
           \<and> hd (?m ! b) = param_at c key b 0"
    using reshape_last[OF r _ ns] reshape_hd[OF r _ ns] v(1) by (simp add: param_at_def)
  then show ?thesis using v(1) r by (intro exI[of _ v] exI[of _ ?m]) simp
qed

lemma init_branch_conds_raw:
  assumes wf: "wf_cell c"
  shows "\<exists>raw_fwd raw_bwd.
     init_branch_conds c =
       Inr (c\<lparr>summed_coupling_conds :=
                fold (add_branch_conds c (map (\<lambda>g. g * 10 ^ 7) raw_fwd)
                        (map (\<lambda>g. g * 10 ^ 7) raw_bwd))
                  (kid_branches c) (summed_coupling_conds c),
              branch_conds_fwd := Val (0 # map (\<lambda>g. g * 10 ^ 7) raw_fwd),
              branch_conds_bwd := Val (0 # map (\<lambda>g. g * 10 ^ 7) raw_bwd),
              initialized_conds := True\<rparr>)
     \<and> length raw_fwd = nbranches c - 1 \<and> length raw_bwd = nbranches c - 1
     \<and> (\<forall>b \<in> set (kid_branches c).
          raw_fwd ! (b - 1) =
            compute_coupling_cond
              (param_at c ''radius'' b (nseg c - 1))
              (param_at c ''radius'' (nat (parents c ! b)) 0)
              (param_at c ''axial_resistivity'' (nat (parents c ! b)) 0)
              (param_at c ''length'' b (nseg c - 1))
              (param_at c ''length'' (nat (parents c ! b)) 0)
        \<and> raw_bwd ! (b - 1) =
            compute_coupling_cond
              (param_at c ''radius'' (nat (parents c ! b)) 0)
              (param_at c ''radius'' b (nseg c - 1))
              (param_at c ''axial_resistivity'' b (nseg c - 1))
              (param_at c ''length'' (nat (parents c ! b)) 0)
              (param_at c ''length'' b (nseg c - 1)))"
proof -
  have ok: "param_ok c ''axial_resistivity''" "param_ok c ''radius''" "param_ok c ''length''"
    and ns: "nseg c \<noteq> 0" and par: "parents c \<noteq> [] \<or> kid_branches c = []"
    using wf by (auto simp: wf_cell_def kid_branches_def)
  from wf_reshape[OF wf ok(1)] obtain va A where
    A: "params c ''axial_resistivity'' = Some va" "reshape va (nbranches c) (nseg c) = Inr A"
       "length A = nbranches c"
       "\<forall>b < nbranches c. last (A ! b) = param_at c ''axial_resistivity'' b (nseg c - 1)
           \<and> hd (A ! b) = param_at c ''axial_resistivity'' b 0"
    by blast
  from wf_reshape[OF wf ok(2)] obtain vr R where
    R: "params c ''radius'' = Some vr" "reshape vr (nbranches c) (nseg c) = Inr R"
       "length R = nbranches c"
       "\<forall>b < nbranches c. last (R ! b) = param_at c ''radius'' b (nseg c - 1)
           \<and> hd (R ! b) = param_at c ''radius'' b 0"
    by blast
  from wf_reshape[OF wf ok(3)] obtain vl L where
    L: "params c ''length'' = Some vl" "reshape vl (nbranches c) (nseg c) = Inr L"
       "length L = nbranches c"
       "\<forall>b < nbranches c. last (L ! b) = param_at c ''length'' b (nseg c - 1)
           \<and> hd (L ! b) = param_at c ''length'' b 0"
    by blast
  let ?fwd = "raw_branch_conds_fwd c A R L"
  let ?bwd = "raw_branch_conds_bwd c A R L"
  have run: "init_branch_conds c =
       Inr (c\<lparr>summed_coupling_conds :=
                fold (add_branch_conds c (map (\<lambda>g. g * 10 ^ 7) ?fwd)
                        (map (\<lambda>g. g * 10 ^ 7) ?bwd))
                  (kid_branches c) (summed_coupling_conds c),
              branch_conds_fwd := Val (0 # map (\<lambda>g. g * 10 ^ 7) ?fwd),
              branch_conds_bwd := Val (0 # map (\<lambda>g. g * 10 ^ 7) ?bwd),
              initialized_conds := True\<rparr>)"
    using A(1,2) R(1,2) L(1,2) ns par
    by (auto simp: init_branch_conds_def lookup_param_def bind_err_def Let_def)
  have lens: "length ?fwd = nbranches c - 1" "length ?bwd = nbranches c - 1"
    by (simp_all add: raw_branch_conds_fwd_def raw_branch_conds_bwd_def kid_branches_def)
  have vals: "?fwd ! (b - 1) =
            compute_coupling_cond
              (param_at c ''radius'' b (nseg c - 1))
              (param_at c ''radius'' (nat (parents c ! b)) 0)
              (param_at c ''axial_resistivity'' (nat (parents c ! b)) 0)
              (param_at c ''length'' b (nseg c - 1))
              (param_at c ''length'' (nat (parents c ! b)) 0)
        \<and> ?bwd ! (b - 1) =
            compute_coupling_cond
              (param_at c ''radius'' (nat (parents c ! b)) 0)
              (param_at c ''radius'' b (nseg c - 1))
              (param_at c ''axial_resistivity'' b (nseg c - 1))
              (param_at c ''length'' (nat (parents c ! b)) 0)
              (param_at c ''length'' b (nseg c - 1))"
    if b: "b \<in> set (kid_branches c)" for b
  proof -
    have b1: "1 \<le> b" "b < nbranches c" using b by (auto simp: kid_branches_def)
    have idx: "b - 1 < length (kid_branches c)" "kid_branches c ! (b - 1) = b"
      using b1 by (auto simp: kid_branches_def)
    have p: "parent_of c b = parents c ! b" using wf b by (rule wf_parent_of)
    have pr: "0 \<le> parents c ! b" "nat (parents c ! b) < nbranches c"
      using wf_parent_range[OF wf b] by auto
    have g: "gather A (parents c ! b) = A ! nat (parents c ! b)"
            "gather R (parents c ! b) = R ! nat (parents c ! b)"
            "gather L (parents c ! b) = L ! nat (parents c ! b)"
      using pr A(3) R(3) L(3) by (simp_all add: gather_in_range)
    show ?thesis
      using idx b1 pr A(4) R(4) L(4)
      by (simp add: raw_branch_conds_fwd_def raw_branch_conds_bwd_def Let_def p g)
  qed
  show ?thesis
    using run lens vals by (intro exI[of _ ?fwd] exI[of _ ?bwd]) blast
qed

lemma init_branch_conds_wf:
  assumes wf: "wf_cell c"
  shows "\<exists>fwd bwd.
     init_branch_conds c =
       Inr (c\<lparr>summed_coupling_conds :=
                fold (add_branch_conds c fwd bwd) (kid_branches c) (summed_coupling_conds c),
              branch_conds_fwd := Val (0 # fwd), branch_conds_bwd := Val (0 # bwd),
              initialized_conds := True\<rparr>)
     \<and> length fwd = nbranches c - 1 \<and> length bwd = nbranches c - 1
     \<and> (\<forall>b \<in> set (kid_branches c).
          fwd ! (b - 1) =
            compute_coupling_cond
              (param_at c ''radius'' b (nseg c - 1))
              (param_at c ''radius'' (nat (parents c ! b)) 0)
              (param_at c ''axial_resistivity'' (nat (parents c ! b)) 0)
              (param_at c ''length'' b (nseg c - 1))
              (param_at c ''length'' (nat (parents c ! b)) 0) * 10 ^ 7
        \<and> bwd ! (b - 1) =
            compute_coupling_cond
              (param_at c ''radius'' (nat (parents c ! b)) 0)
              (param_at c ''radius'' b (nseg c - 1))
              (param_at c ''axial_resistivity'' b (nseg c - 1))
              (param_at c ''length'' (nat (parents c ! b)) 0)
              (param_at c ''length'' b (nseg c - 1)) * 10 ^ 7)"
proof -
  from init_branch_conds_raw[OF wf] obtain raw_fwd raw_bwd where
    run: "init_branch_conds c =
       Inr (c\<lparr>summed_coupling_conds :=
                fold (add_branch_conds c (map (\<lambda>g. g * 10 ^ 7) raw_fwd)
                        (map (\<lambda>g. g * 10 ^ 7) raw_bwd))
                  (kid_branches c) (summed_coupling_conds c),
              branch_conds_fwd := Val (0 # map (\<lambda>g. g * 10 ^ 7) raw_fwd),
              branch_conds_bwd := Val (0 # map (\<lambda>g. g * 10 ^ 7) raw_bwd),
              initialized_conds := True\<rparr>)"
    and lens: "length raw_fwd = nbranches c - 1" "length raw_bwd = nbranches c - 1"
    and vals: "\<forall>b \<in> set (kid_branches c).
          raw_fwd ! (b - 1) =
            compute_coupling_cond
              (param_at c ''radius'' b (nseg c - 1))
              (param_at c ''radius'' (nat (parents c ! b)) 0)
              (param_at c ''axial_resistivity'' (nat (parents c ! b)) 0)
              (param_at c ''length'' b (nseg c - 1))
              (param_at c ''length'' (nat (parents c ! b)) 0)
        \<and> raw_bwd ! (b - 1) =
            compute_coupling_cond
              (param_at c ''radius'' (nat (parents c ! b)) 0)
              (param_at c ''radius'' b (nseg c - 1))
              (param_at c ''axial_resistivity'' b (nseg c - 1))
              (param_at c ''length'' (nat (parents c ! b)) 0)
              (param_at c ''length'' b (nseg c - 1))"
    by blast
  have idx: "b - 1 < nbranches c - 1" if "b \<in> set (kid_branches c)" for b
    using that by (auto simp: kid_branches_def)
  show ?thesis
    apply (rule exI[of _ "map (\<lambda>g. g * 10 ^ 7) raw_fwd"])
    apply (rule exI[of _ "map (\<lambda>g. g * 10 ^ 7) raw_bwd"])
    using run lens vals idx apply simp
    done
qed

subsection \<open>The example cells are well-formed\<close>

lemma wf_fork_cell: "wf_cell fork_cell"
  by (simp add: wf_cell_def fork_cell_def example_cell_def param_ok_def kid_branches_def upt_rec)

lemma wf_chain_cell: "wf_cell chain_cell"
  by (simp add: wf_cell_def chain_cell_def example_cell_def param_ok_def kid_branches_def upt_rec)

lemma wf_two_branch_cell: "wf_cell two_branch_cell"
  by (simp add: wf_cell_def two_branch_cell_def example_cell_def param_ok_def kid_branches_def upt_rec)

lemma pos_two: "positive_params two_branch_cell"
  by (simp add: positive_params_def two_branch_cell_def example_cell_def)


subsection \<open>Zero padding of the junction arrays\<close>

text \<open>
  C6. After \<^verbatim>\<open>init_branch_conds\<close> on a well-formed cell, \<^verbatim>\<open>branch_conds_fwd\<close> and
  \<^verbatim>\<open>branch_conds_bwd\<close> are bound to arrays of length \<^verbatim>\<open>nbranches\<close> whose element 0 is zero: every
  branch index, the root included, is in bounds, and the slot of the root holds the additive
  identity.
\<close>

theorem branch_conds_zero_padded:
  assumes "wf_cell c"
  shows "\<exists>c' fwd bwd.
     init_branch_conds c = Inr c' \<and>
     branch_conds_fwd c' = Val fwd \<and> branch_conds_bwd c' = Val bwd \<and>
     length fwd = nbranches c \<and> length bwd = nbranches c \<and>
     fwd ! 0 = 0 \<and> bwd ! 0 = 0"
proof -
  from init_branch_conds_wf[OF assms] obtain fwd bwd where
    run: "init_branch_conds c =
       Inr (c\<lparr>summed_coupling_conds :=
                fold (add_branch_conds c fwd bwd) (kid_branches c) (summed_coupling_conds c),
              branch_conds_fwd := Val (0 # fwd), branch_conds_bwd := Val (0 # bwd),
              initialized_conds := True\<rparr>)"
    and len: "length fwd = nbranches c - 1" "length bwd = nbranches c - 1"
    by blast
  have nb: "1 \<le> nbranches c" using assms by (simp add: wf_cell_def)
  show ?thesis
    using run len nb
    by (intro exI[of _ "c\<lparr>summed_coupling_conds :=
                fold (add_branch_conds c fwd bwd) (kid_branches c) (summed_coupling_conds c),
              branch_conds_fwd := Val (0 # fwd), branch_conds_bwd := Val (0 # bwd),
              initialized_conds := True\<rparr>"] exI[of _ "0 # fwd"] exI[of _ "0 # bwd"]) simp
qed

theorem branch_conds_zero_padded_witness:
  "wf_cell fork_cell \<and>
   (\<exists>c' fwd bwd.
     init_branch_conds fork_cell = Inr c' \<and>
     branch_conds_fwd c' = Val fwd \<and> branch_conds_bwd c' = Val bwd \<and>
     length fwd = nbranches fork_cell \<and> length bwd = nbranches fork_cell \<and>
     fwd ! 0 = 0 \<and> bwd ! 0 = 0)"
  using branch_conds_zero_padded[OF wf_fork_cell] wf_fork_cell by simp

subsection \<open>Reshape and flatten\<close>

lemma concat_rows_take:
  "concat (map (\<lambda>r. take ns (drop (r * ns) xs)) [0..<k]) = take (k * ns) xs"
proof (induction k)
  case 0
  then show ?case by simp
next
  case (Suc k)
  have "take (k * ns) xs @ take ns (drop (k * ns) xs) = take (k * ns + ns) xs"
    by (simp add: take_add)
  then show ?case using Suc by (simp add: add.commute)
qed

lemma rows_of_concat:
  assumes "\<forall>row \<in> set m. length row = ns"
  shows "map (\<lambda>r. take ns (drop (r * ns) (concat m))) [0..<length m] = m"
  using assms
proof (induction m)
  case Nil
  then show ?case by simp
next
  case (Cons row m)
  have len: "length row = ns" using Cons.prems by simp
  have tl: "map (\<lambda>r. take ns (drop (r * ns) (concat m))) [0..<length m] = m"
    using Cons by simp
  have "map (\<lambda>r. take ns (drop (r * ns) (concat (row # m)))) [0..<length (row # m)] =
        take ns (row @ concat m)
        # map (\<lambda>r. take ns (drop (Suc r * ns) (row @ concat m))) [0..<length m]"
    unfolding length_Cons map_upt_Suc by simp
  also have "take ns (row @ concat m) = row" using len by simp
  also have "map (\<lambda>r. take ns (drop (Suc r * ns) (row @ concat m))) [0..<length m] =
             map (\<lambda>r. take ns (drop (r * ns) (concat m))) [0..<length m]"
    using len by simp
  finally show ?case using tl by simp
qed

lemma length_concat_rect:
  "\<forall>row \<in> set m. length row = ns \<Longrightarrow> length (concat m) = length m * ns"
  by (induction m) simp_all

text \<open>
  C8. A flat vector of length \<^verbatim>\<open>nbranches * nseg\<close> reshapes to \<^verbatim>\<open>(nbranches, nseg)\<close> without
  error and flattens back, in row-major order, to the very same vector; and a matrix of that
  shape flattens and reshapes back to itself. The two operations that \<^verbatim>\<open>step\<close> applies to the
  voltages are inverse to each other, for elements of any type.
\<close>

theorem reshape_flatten_round_trip:
  fixes xs :: "'a list" and m :: "'a list list"
  shows "(length xs = nb * ns \<longrightarrow>
            (\<exists>rows. reshape xs nb ns = Inr rows \<and> length rows = nb \<and>
                    (\<forall>row \<in> set rows. length row = ns) \<and> flatten rows = xs))
       \<and> (length m = nb \<and> (\<forall>row \<in> set m. length row = ns) \<longrightarrow>
            reshape (flatten m) nb ns = Inr m)"
proof (intro conjI impI)
  assume len: "length xs = nb * ns"
  let ?rows = "map (\<lambda>r. take ns (drop (r * ns) xs)) [0..<nb]"
  have r: "reshape xs nb ns = Inr ?rows" using len by (simp add: reshape_def)
  have f: "flatten ?rows = xs" using len by (simp add: flatten_def concat_rows_take)
  have rl: "\<forall>row \<in> set ?rows. length row = ns"
  proof
    fix row assume "row \<in> set ?rows"
    then obtain b where b: "b < nb" "row = take ns (drop (b * ns) xs)" by auto
    have "Suc b * ns \<le> nb * ns" using b(1) by (intro mult_le_mono1) simp
    then have "b * ns + ns \<le> length xs" using len by (simp add: add.commute)
    then show "length row = ns" using b(2) by simp
  qed
  show "\<exists>rows. reshape xs nb ns = Inr rows \<and> length rows = nb \<and>
                    (\<forall>row \<in> set rows. length row = ns) \<and> flatten rows = xs"
  proof (intro exI[of _ ?rows] conjI)
    show "reshape xs nb ns = Inr ?rows" by (rule r)
    show "length ?rows = nb" by simp
    show "\<forall>row \<in> set ?rows. length row = ns" by (rule rl)
    show "flatten ?rows = xs" by (rule f)
  qed
next
  assume a: "length m = nb \<and> (\<forall>row \<in> set m. length row = ns)"
  then have len: "length m = nb" and rows: "\<forall>row \<in> set m. length row = ns" by simp_all
  have e1: "length (concat m) = nb * ns"
    using length_concat_rect[OF rows] by (simp only: len)
  have e2: "map (\<lambda>r. take ns (drop (r * ns) (concat m))) [0..<nb] = m"
    unfolding len[symmetric] by (rule rows_of_concat[OF rows])
  show "reshape (flatten m) nb ns = Inr m"
    unfolding reshape_def flatten_def by (simp only: e1 e2 if_True refl simp_thms)
qed

theorem reshape_flatten_round_trip_witness:
  "length [1, 2, 3, 4, 5, 6 :: int] = 3 * 2 \<and>
   (\<exists>rows. reshape [1, 2, 3, 4, 5, 6 :: int] 3 2 = Inr rows \<and> length rows = 3 \<and>
           (\<forall>row \<in> set rows. length row = 2) \<and> flatten rows = [1, 2, 3, 4, 5, 6]) \<and>
   length [[1, 2], [3, 4], [5, 6 :: int]] = 3 \<and>
   list_all (\<lambda>row. length row = 2) [[1, 2], [3, 4], [5, 6 :: int]] \<and>
   reshape (flatten [[1, 2], [3, 4], [5, 6 :: int]]) 3 2 = Inr [[1, 2], [3, 4], [5, 6]]"
  using reshape_flatten_round_trip[of "[1, 2, 3, 4, 5, 6 :: int]" 3 2 "[[1, 2], [3, 4], [5, 6]]"]
  by simp

subsection \<open>Attribute lookup\<close>

lemma two_branch_cell_unbound:
  "\<not> has_attr two_branch_cell ''branch_conds_fwd''" "\<not> has_attr two_branch_cell ''branch''"
  "is_set (nodes two_branch_cell)"
  by (simp_all add: has_attr_def own_attrs_def is_set_def two_branch_cell_def example_cell_def)

text \<open>
  C10. When the normal lookup does not find an attribute of a cell, the access raises an
  assertion failure for every name but \<^verbatim>\<open>branch\<close>; for \<^verbatim>\<open>branch\<close> it returns a view over the
  node table of the cell. No other exception comes out of the hook, so a misspelled or not yet
  assigned attribute fails with the assertion.
\<close>

theorem getattr_falls_back_to_assertion:
  assumes "\<not> has_attr self key"
  shows "(key \<noteq> ''branch'' \<longrightarrow> getattr self key = Inl AssertionError) \<and>
         (key = ''branch'' \<and> is_set (nodes self) \<longrightarrow>
            getattr self key = Inr (View (BranchView self (nodes self))))"
  using assms
  by (auto simp: getattr_def Cell_getattr_def is_set_def split: attr.splits)

theorem getattr_falls_back_to_assertion_witness:
  "\<not> has_attr two_branch_cell ''branch_conds_fwd'' \<and>
   getattr two_branch_cell ''branch_conds_fwd'' = Inl AssertionError \<and>
   \<not> has_attr two_branch_cell ''branch'' \<and> is_set (nodes two_branch_cell) \<and>
   getattr two_branch_cell ''branch'' =
     Inr (View (BranchView two_branch_cell (nodes two_branch_cell)))"
  using getattr_falls_back_to_assertion[of two_branch_cell "''branch_conds_fwd''"]
    getattr_falls_back_to_assertion[of two_branch_cell "''branch''"]
    two_branch_cell_unbound
  by simp

subsection \<open>The first step of a fresh cell\<close>


text \<open>
  The test \<^verbatim>\<open>self.branch_conds_fwd is None\<close> at the head of \<^verbatim>\<open>step\<close> needs the attribute to be
  bound: on an object where it is not, the lookup goes to \<^verbatim>\<open>__getattr__\<close> and fails there.
\<close>

lemma step_unbound_raises:
  assumes "branch_conds_fwd c = Unset"
  shows "step ext c u dt i_inds i_current = Inl AssertionError"
  using assms by (simp add: step_def read_attr_def Cell_getattr_def bind_err_def)











subsection \<open>The junction conductances\<close>

lemma init_branch_conds_values:
  assumes wf: "wf_cell c"
  shows "\<exists>c' fwd bwd.
     init_branch_conds c = Inr c' \<and>
     branch_conds_fwd c' = Val fwd \<and> branch_conds_bwd c' = Val bwd \<and>
     summed_coupling_conds c' =
       fold (add_branch_conds c (tl fwd) (tl bwd)) (kid_branches c) (summed_coupling_conds c) \<and>
     (\<forall>b \<in> set (kid_branches c).
          fwd ! b =
            compute_coupling_cond
              (param_at c ''radius'' b (nseg c - 1))
              (param_at c ''radius'' (nat (parents c ! b)) 0)
              (param_at c ''axial_resistivity'' (nat (parents c ! b)) 0)
              (param_at c ''length'' b (nseg c - 1))
              (param_at c ''length'' (nat (parents c ! b)) 0) * 10 ^ 7
        \<and> bwd ! b =
            compute_coupling_cond
              (param_at c ''radius'' (nat (parents c ! b)) 0)
              (param_at c ''radius'' b (nseg c - 1))
              (param_at c ''axial_resistivity'' b (nseg c - 1))
              (param_at c ''length'' (nat (parents c ! b)) 0)
              (param_at c ''length'' b (nseg c - 1)) * 10 ^ 7)"
proof -
  from init_branch_conds_wf[OF wf] obtain fwd bwd where
    run: "init_branch_conds c =
       Inr (c\<lparr>summed_coupling_conds :=
                fold (add_branch_conds c fwd bwd) (kid_branches c) (summed_coupling_conds c),
              branch_conds_fwd := Val (0 # fwd), branch_conds_bwd := Val (0 # bwd),
              initialized_conds := True\<rparr>)"
    and vals: "\<forall>b \<in> set (kid_branches c).
          fwd ! (b - 1) =
            compute_coupling_cond
              (param_at c ''radius'' b (nseg c - 1))
              (param_at c ''radius'' (nat (parents c ! b)) 0)
              (param_at c ''axial_resistivity'' (nat (parents c ! b)) 0)
              (param_at c ''length'' b (nseg c - 1))
              (param_at c ''length'' (nat (parents c ! b)) 0) * 10 ^ 7
        \<and> bwd ! (b - 1) =
            compute_coupling_cond
              (param_at c ''radius'' (nat (parents c ! b)) 0)
              (param_at c ''radius'' b (nseg c - 1))
              (param_at c ''axial_resistivity'' b (nseg c - 1))
              (param_at c ''length'' (nat (parents c ! b)) 0)
              (param_at c ''length'' b (nseg c - 1)) * 10 ^ 7"
    by blast
  let ?c' = "c\<lparr>summed_coupling_conds :=
                fold (add_branch_conds c fwd bwd) (kid_branches c) (summed_coupling_conds c),
              branch_conds_fwd := Val (0 # fwd), branch_conds_bwd := Val (0 # bwd),
              initialized_conds := True\<rparr>"
  have pad: "(0 # fwd) ! b = fwd ! (b - 1)" "(0 # bwd) ! b = bwd ! (b - 1)"
    if "b \<in> set (kid_branches c)" for b
    using that by (auto simp: kid_branches_def nth_Cons')
  have v: "\<forall>b \<in> set (kid_branches c).
          (0 # fwd) ! b =
            compute_coupling_cond
              (param_at c ''radius'' b (nseg c - 1))
              (param_at c ''radius'' (nat (parents c ! b)) 0)
              (param_at c ''axial_resistivity'' (nat (parents c ! b)) 0)
              (param_at c ''length'' b (nseg c - 1))
              (param_at c ''length'' (nat (parents c ! b)) 0) * 10 ^ 7
        \<and> (0 # bwd) ! b =
            compute_coupling_cond
              (param_at c ''radius'' (nat (parents c ! b)) 0)
              (param_at c ''radius'' b (nseg c - 1))
              (param_at c ''axial_resistivity'' b (nseg c - 1))
              (param_at c ''length'' (nat (parents c ! b)) 0)
              (param_at c ''length'' b (nseg c - 1)) * 10 ^ 7"
    using vals pad by simp
  show ?thesis
    apply (rule exI[of _ ?c'])
    apply (rule exI[of _ "0 # fwd"])
    apply (rule exI[of _ "0 # bwd"])
    using run v apply simp
    done
qed

lemma pos_two_branch_cell: "positive_params two_branch_cell"
  by (simp add: positive_params_def two_branch_cell_def example_cell_def)

lemma two_branch_cell_params:
  "param_at two_branch_cell ''radius'' (Suc 0) 0 = 1"
  "param_at two_branch_cell ''radius'' 0 0 = 2"
  "param_at two_branch_cell ''length'' (Suc 0) 0 = 1"
  "param_at two_branch_cell ''length'' 0 0 = 4"
  "param_at two_branch_cell ''axial_resistivity'' (Suc 0) 0 = 1"
  "param_at two_branch_cell ''axial_resistivity'' 0 0 = 2"
  "nseg two_branch_cell = Suc 0" "parents two_branch_cell ! Suc 0 = 0"
  "kid_branches two_branch_cell = [Suc 0]"
  by (simp_all add: param_at_def two_branch_cell_def example_cell_def kid_branches_def upt_rec)

lemma two_branch_cell_conds:
  "\<exists>c' fwd bwd.
     init_branch_conds two_branch_cell = Inr c' \<and>
     branch_conds_fwd c' = Val fwd \<and> branch_conds_bwd c' = Val bwd \<and>
     fwd ! 1 = 2500000 \<and> bwd ! 1 = 625000"
proof -
  from init_branch_conds_values[OF wf_two_branch_cell] obtain c' fwd bwd where
    r: "init_branch_conds two_branch_cell = Inr c'"
       "branch_conds_fwd c' = Val fwd" "branch_conds_bwd c' = Val bwd"
    and v: "\<forall>b \<in> set (kid_branches two_branch_cell).
          fwd ! b =
            compute_coupling_cond
              (param_at two_branch_cell ''radius'' b (nseg two_branch_cell - 1))
              (param_at two_branch_cell ''radius'' (nat (parents two_branch_cell ! b)) 0)
              (param_at two_branch_cell ''axial_resistivity'' (nat (parents two_branch_cell ! b)) 0)
              (param_at two_branch_cell ''length'' b (nseg two_branch_cell - 1))
              (param_at two_branch_cell ''length'' (nat (parents two_branch_cell ! b)) 0) * 10 ^ 7
        \<and> bwd ! b =
            compute_coupling_cond
              (param_at two_branch_cell ''radius'' (nat (parents two_branch_cell ! b)) 0)
              (param_at two_branch_cell ''radius'' b (nseg two_branch_cell - 1))
              (param_at two_branch_cell ''axial_resistivity'' b (nseg two_branch_cell - 1))
              (param_at two_branch_cell ''length'' (nat (parents two_branch_cell ! b)) 0)
              (param_at two_branch_cell ''length'' b (nseg two_branch_cell - 1)) * 10 ^ 7"
    by blast
  have "fwd ! 1 = 2500000 \<and> bwd ! 1 = 625000"
    using v by (simp add: two_branch_cell_params compute_coupling_cond_def)
  then show ?thesis using r by blast
qed

text \<open>
  C1 as stated fails. On the cell with one child, where the two compartments at the junction
  differ in radius, length and resistivity, neither stored junction conductance is the formula
  evaluated with the resistivity of its first (source) compartment, with or without the factor
  \<open>10 ^ 7\<close>, whichever of the two compartments is taken as the source.
\<close>

theorem source_resistivity_counterexample:
  "\<exists>c' fwd bwd.
     init_branch_conds two_branch_cell = Inr c' \<and>
     branch_conds_fwd c' = Val fwd \<and> branch_conds_bwd c' = Val bwd \<and>
     (let rad_k = param_at two_branch_cell ''radius'' 1 0;
          rad_p = param_at two_branch_cell ''radius'' 0 0;
          len_k = param_at two_branch_cell ''length'' 1 0;
          len_p = param_at two_branch_cell ''length'' 0 0;
          res_k = param_at two_branch_cell ''axial_resistivity'' 1 0;
          res_p = param_at two_branch_cell ''axial_resistivity'' 0 0;
          from_kid = rad_k * rad_p ^ 2 / res_k / (rad_p ^ 2 * len_k + rad_k ^ 2 * len_p) / len_k;
          from_parent = rad_p * rad_k ^ 2 / res_p / (rad_k ^ 2 * len_p + rad_p ^ 2 * len_k) / len_p
      in fwd ! 1 \<notin> {from_kid, from_kid * 10 ^ 7, from_parent, from_parent * 10 ^ 7} \<and>
         bwd ! 1 \<notin> {from_kid, from_kid * 10 ^ 7, from_parent, from_parent * 10 ^ 7})"
proof -
  from two_branch_cell_conds obtain c' fwd bwd where
    r: "init_branch_conds two_branch_cell = Inr c'"
       "branch_conds_fwd c' = Val fwd" "branch_conds_bwd c' = Val bwd"
    and v: "fwd ! 1 = 2500000" "bwd ! 1 = 625000"
    by blast
  show ?thesis
    apply (rule exI[of _ c'])
    apply (rule exI[of _ fwd])
    apply (rule exI[of _ bwd])
    using r v apply (simp add: two_branch_cell_params Let_def)
    done
qed

text \<open>
  C1, amended. \<^verbatim>\<open>compute_coupling_cond(rad1, rad2, r_a, l1, l2)\<close> is
  \<open>rad1 * rad2\<^sup>2 / r_a / (rad2\<^sup>2 * l1 + rad1\<^sup>2 * l2) / l1\<close>. On a well-formed cell with positive
  parameters, the stored junction conductance of every branch but the root is \<open>10 ^ 7\<close> times
  this formula, evaluated with the geometry of the two compartments at the junction and with
  the resistivity of the second of them: the forward entry takes radius and length of the last
  compartment of the branch first and the resistivity of the first compartment of the parent;
  the backward entry takes radius and length of the first compartment of the parent first and
  the resistivity of the last compartment of the branch.
\<close>

theorem junction_conductance_formula:
  assumes "wf_cell c" and "positive_params c"
  shows "(\<forall>rad1 rad2 r_a l1 l2.
            compute_coupling_cond rad1 rad2 r_a l1 l2 =
              rad1 * rad2 ^ 2 / r_a / (rad2 ^ 2 * l1 + rad1 ^ 2 * l2) / l1) \<and>
         (\<exists>c' fwd bwd.
            init_branch_conds c = Inr c' \<and>
            branch_conds_fwd c' = Val fwd \<and> branch_conds_bwd c' = Val bwd \<and>
            (\<forall>b \<in> set (kid_branches c).
               let p = nat (parents c ! b); e = nseg c - 1;
                   rad_k = param_at c ''radius'' b e; rad_p = param_at c ''radius'' p 0;
                   len_k = param_at c ''length'' b e; len_p = param_at c ''length'' p 0;
                   res_k = param_at c ''axial_resistivity'' b e;
                   res_p = param_at c ''axial_resistivity'' p 0
               in fwd ! b =
                    rad_k * rad_p ^ 2 / res_p / (rad_p ^ 2 * len_k + rad_k ^ 2 * len_p) / len_k
                    * 10 ^ 7 \<and>
                  bwd ! b =
                    rad_p * rad_k ^ 2 / res_k / (rad_k ^ 2 * len_p + rad_p ^ 2 * len_k) / len_p
                    * 10 ^ 7))"
proof -
  from init_branch_conds_values[OF assms(1)] obtain c' fwd bwd where
    r: "init_branch_conds c = Inr c'"
       "branch_conds_fwd c' = Val fwd" "branch_conds_bwd c' = Val bwd"
    and v: "\<forall>b \<in> set (kid_branches c).
          fwd ! b =
            compute_coupling_cond
              (param_at c ''radius'' b (nseg c - 1))
              (param_at c ''radius'' (nat (parents c ! b)) 0)
              (param_at c ''axial_resistivity'' (nat (parents c ! b)) 0)
              (param_at c ''length'' b (nseg c - 1))
              (param_at c ''length'' (nat (parents c ! b)) 0) * 10 ^ 7
        \<and> bwd ! b =
            compute_coupling_cond
              (param_at c ''radius'' (nat (parents c ! b)) 0)
              (param_at c ''radius'' b (nseg c - 1))
              (param_at c ''axial_resistivity'' b (nseg c - 1))
              (param_at c ''length'' (nat (parents c ! b)) 0)
              (param_at c ''length'' b (nseg c - 1)) * 10 ^ 7"
    by blast
  have "\<exists>c' fwd bwd.
            init_branch_conds c = Inr c' \<and>
            branch_conds_fwd c' = Val fwd \<and> branch_conds_bwd c' = Val bwd \<and>
            (\<forall>b \<in> set (kid_branches c).
               let p = nat (parents c ! b); e = nseg c - 1;
                   rad_k = param_at c ''radius'' b e; rad_p = param_at c ''radius'' p 0;
                   len_k = param_at c ''length'' b e; len_p = param_at c ''length'' p 0;
                   res_k = param_at c ''axial_resistivity'' b e;
                   res_p = param_at c ''axial_resistivity'' p 0
               in fwd ! b =
                    rad_k * rad_p ^ 2 / res_p / (rad_p ^ 2 * len_k + rad_k ^ 2 * len_p) / len_k
                    * 10 ^ 7 \<and>
                  bwd ! b =
                    rad_p * rad_k ^ 2 / res_k / (rad_k ^ 2 * len_p + rad_p ^ 2 * len_k) / len_p
                    * 10 ^ 7)"
    apply (rule exI[of _ c'])
    apply (rule exI[of _ fwd])
    apply (rule exI[of _ bwd])
    using r v apply (simp add: Let_def compute_coupling_cond_def)
    done
  then show ?thesis by (simp add: compute_coupling_cond_def)
qed

theorem junction_conductance_formula_witness:
  "wf_cell two_branch_cell \<and> positive_params two_branch_cell \<and>
   (\<exists>c' fwd bwd.
      init_branch_conds two_branch_cell = Inr c' \<and>
      branch_conds_fwd c' = Val fwd \<and> branch_conds_bwd c' = Val bwd \<and>
      fwd ! 1 = 1 * 2 ^ 2 / 2 / (2 ^ 2 * 1 + 1 ^ 2 * 4) / 1 * 10 ^ 7 \<and>
      bwd ! 1 = 2 * 1 ^ 2 / 1 / (1 ^ 2 * 4 + 2 ^ 2 * 1) / 4 * 10 ^ 7)"
  using junction_conductance_formula[OF wf_two_branch_cell pos_two_branch_cell]
    wf_two_branch_cell pos_two_branch_cell
  by (simp add: two_branch_cell_params Let_def)

subsection \<open>Directions of the junction conductances\<close>

text \<open>
  C2 as stated fails. On the cell with one child the backward entry is not the formula with
  the last compartment of the child as its first argument, and the forward entry is not the
  formula with the first compartment of the parent as its first argument, whichever of the two
  resistivities is used and with or without the factor \<open>10 ^ 7\<close>.
\<close>

theorem junction_direction_counterexample:
  "\<exists>c' fwd bwd.
     init_branch_conds two_branch_cell = Inr c' \<and>
     branch_conds_fwd c' = Val fwd \<and> branch_conds_bwd c' = Val bwd \<and>
     (let rad_k = param_at two_branch_cell ''radius'' 1 0;
          rad_p = param_at two_branch_cell ''radius'' 0 0;
          len_k = param_at two_branch_cell ''length'' 1 0;
          len_p = param_at two_branch_cell ''length'' 0 0;
          res_k = param_at two_branch_cell ''axial_resistivity'' 1 0;
          res_p = param_at two_branch_cell ''axial_resistivity'' 0 0
      in bwd ! 1 \<notin> {compute_coupling_cond rad_k rad_p res_k len_k len_p,
                      compute_coupling_cond rad_k rad_p res_p len_k len_p,
                      compute_coupling_cond rad_k rad_p res_k len_k len_p * 10 ^ 7,
                      compute_coupling_cond rad_k rad_p res_p len_k len_p * 10 ^ 7} \<and>
         fwd ! 1 \<notin> {compute_coupling_cond rad_p rad_k res_p len_p len_k,
                      compute_coupling_cond rad_p rad_k res_k len_p len_k,
                      compute_coupling_cond rad_p rad_k res_p len_p len_k * 10 ^ 7,
                      compute_coupling_cond rad_p rad_k res_k len_p len_k * 10 ^ 7})"
proof -
  from two_branch_cell_conds obtain c' fwd bwd where
    r: "init_branch_conds two_branch_cell = Inr c'"
       "branch_conds_fwd c' = Val fwd" "branch_conds_bwd c' = Val bwd"
    and v: "fwd ! 1 = 2500000" "bwd ! 1 = 625000"
    by blast
  show ?thesis
    apply (rule exI[of _ c'])
    apply (rule exI[of _ fwd])
    apply (rule exI[of _ bwd])
    using r v apply (simp add: two_branch_cell_params Let_def compute_coupling_cond_def)
    done
qed

text \<open>
  C2, amended. For every branch \<open>b\<close> but the root of a well-formed cell, with \<open>p\<close> its parent:
  \<^verbatim>\<open>branch_conds_bwd[b]\<close> is \<open>10 ^ 7\<close> times \<^verbatim>\<open>compute_coupling_cond\<close> with the first compartment of
  \<open>p\<close> in the first position, the last compartment of \<open>b\<close> in the second, and the resistivity
  of the last compartment of \<open>b\<close>; \<^verbatim>\<open>branch_conds_fwd[b]\<close> is \<open>10 ^ 7\<close> times
  \<^verbatim>\<open>compute_coupling_cond\<close> with the last compartment of \<open>b\<close> in the first position, the first
  compartment of \<open>p\<close> in the second, and the resistivity of the first compartment of \<open>p\<close>.
\<close>

theorem junction_directions:
  assumes "wf_cell c"
  shows "\<exists>c' fwd bwd.
     init_branch_conds c = Inr c' \<and>
     branch_conds_fwd c' = Val fwd \<and> branch_conds_bwd c' = Val bwd \<and>
     (\<forall>b \<in> set (kid_branches c).
        let p = nat (parents c ! b); e = nseg c - 1 in
          bwd ! b =
            compute_coupling_cond
              (param_at c ''radius'' p 0) (param_at c ''radius'' b e)
              (param_at c ''axial_resistivity'' b e)
              (param_at c ''length'' p 0) (param_at c ''length'' b e) * 10 ^ 7 \<and>
          fwd ! b =
            compute_coupling_cond
              (param_at c ''radius'' b e) (param_at c ''radius'' p 0)
              (param_at c ''axial_resistivity'' p 0)
              (param_at c ''length'' b e) (param_at c ''length'' p 0) * 10 ^ 7)"
proof -
  from init_branch_conds_values[OF assms] obtain c' fwd bwd where
    r: "init_branch_conds c = Inr c'"
       "branch_conds_fwd c' = Val fwd" "branch_conds_bwd c' = Val bwd"
    and v: "\<forall>b \<in> set (kid_branches c).
          fwd ! b =
            compute_coupling_cond
              (param_at c ''radius'' b (nseg c - 1))
              (param_at c ''radius'' (nat (parents c ! b)) 0)
              (param_at c ''axial_resistivity'' (nat (parents c ! b)) 0)
              (param_at c ''length'' b (nseg c - 1))
              (param_at c ''length'' (nat (parents c ! b)) 0) * 10 ^ 7
        \<and> bwd ! b =
            compute_coupling_cond
              (param_at c ''radius'' (nat (parents c ! b)) 0)
              (param_at c ''radius'' b (nseg c - 1))
              (param_at c ''axial_resistivity'' b (nseg c - 1))
              (param_at c ''length'' (nat (parents c ! b)) 0)
              (param_at c ''length'' b (nseg c - 1)) * 10 ^ 7"
    by blast
  show ?thesis
    apply (rule exI[of _ c'])
    apply (rule exI[of _ fwd])
    apply (rule exI[of _ bwd])
    using r v apply (simp add: Let_def)
    done
qed

theorem junction_directions_witness:
  "wf_cell two_branch_cell \<and>
   (\<exists>c' fwd bwd.
      init_branch_conds two_branch_cell = Inr c' \<and>
      branch_conds_fwd c' = Val fwd \<and> branch_conds_bwd c' = Val bwd \<and>
      bwd ! 1 = compute_coupling_cond 2 1 1 4 1 * 10 ^ 7 \<and>
      fwd ! 1 = compute_coupling_cond 1 2 2 1 4 * 10 ^ 7)"
  using junction_directions[OF wf_two_branch_cell] wf_two_branch_cell
  by (simp add: two_branch_cell_params Let_def)

subsection \<open>The unit conversion\<close>

lemma two_branch_cell_nbranches: "nbranches two_branch_cell = 2"
  by (simp add: two_branch_cell_def example_cell_def)

text \<open>
  C7. On a well-formed cell, \<^verbatim>\<open>init_branch_conds\<close> computes one unconverted conductance for each
  direction and each branch but the root, stores each of them multiplied by \<open>10 ^ 7\<close> once
  (behind the leading zero), and it is these converted values that the loop adds into
  \<^verbatim>\<open>summed_coupling_conds\<close>.
\<close>

theorem unit_conversion_once:
  assumes "wf_cell c"
  shows "\<exists>c' raw_fwd raw_bwd.
     init_branch_conds c = Inr c' \<and>
     length raw_fwd = nbranches c - 1 \<and> length raw_bwd = nbranches c - 1 \<and>
     (\<forall>b \<in> set (kid_branches c).
        let p = nat (parents c ! b); e = nseg c - 1 in
          raw_fwd ! (b - 1) =
            compute_coupling_cond
              (param_at c ''radius'' b e) (param_at c ''radius'' p 0)
              (param_at c ''axial_resistivity'' p 0)
              (param_at c ''length'' b e) (param_at c ''length'' p 0) \<and>
          raw_bwd ! (b - 1) =
            compute_coupling_cond
              (param_at c ''radius'' p 0) (param_at c ''radius'' b e)
              (param_at c ''axial_resistivity'' b e)
              (param_at c ''length'' p 0) (param_at c ''length'' b e)) \<and>
     branch_conds_fwd c' = Val (0 # map (\<lambda>g. g * 10 ^ 7) raw_fwd) \<and>
     branch_conds_bwd c' = Val (0 # map (\<lambda>g. g * 10 ^ 7) raw_bwd) \<and>
     summed_coupling_conds c' =
       fold (add_branch_conds c (map (\<lambda>g. g * 10 ^ 7) raw_fwd)
               (map (\<lambda>g. g * 10 ^ 7) raw_bwd))
         (kid_branches c) (summed_coupling_conds c)"
proof -
  from init_branch_conds_raw[OF assms] obtain raw_fwd raw_bwd where
    run: "init_branch_conds c =
       Inr (c\<lparr>summed_coupling_conds :=
                fold (add_branch_conds c (map (\<lambda>g. g * 10 ^ 7) raw_fwd)
                        (map (\<lambda>g. g * 10 ^ 7) raw_bwd))
                  (kid_branches c) (summed_coupling_conds c),
              branch_conds_fwd := Val (0 # map (\<lambda>g. g * 10 ^ 7) raw_fwd),
              branch_conds_bwd := Val (0 # map (\<lambda>g. g * 10 ^ 7) raw_bwd),
              initialized_conds := True\<rparr>)"
    and lens: "length raw_fwd = nbranches c - 1" "length raw_bwd = nbranches c - 1"
    and vals: "\<forall>b \<in> set (kid_branches c).
          raw_fwd ! (b - 1) =
            compute_coupling_cond
              (param_at c ''radius'' b (nseg c - 1))
              (param_at c ''radius'' (nat (parents c ! b)) 0)
              (param_at c ''axial_resistivity'' (nat (parents c ! b)) 0)
              (param_at c ''length'' b (nseg c - 1))
              (param_at c ''length'' (nat (parents c ! b)) 0)
        \<and> raw_bwd ! (b - 1) =
            compute_coupling_cond
              (param_at c ''radius'' (nat (parents c ! b)) 0)
              (param_at c ''radius'' b (nseg c - 1))
              (param_at c ''axial_resistivity'' b (nseg c - 1))
              (param_at c ''length'' (nat (parents c ! b)) 0)
              (param_at c ''length'' b (nseg c - 1))"
    by blast
  show ?thesis
    apply (rule exI[of _ "c\<lparr>summed_coupling_conds :=
                fold (add_branch_conds c (map (\<lambda>g. g * 10 ^ 7) raw_fwd)
                        (map (\<lambda>g. g * 10 ^ 7) raw_bwd))
                  (kid_branches c) (summed_coupling_conds c),
              branch_conds_fwd := Val (0 # map (\<lambda>g. g * 10 ^ 7) raw_fwd),
              branch_conds_bwd := Val (0 # map (\<lambda>g. g * 10 ^ 7) raw_bwd),
              initialized_conds := True\<rparr>"])
    apply (rule exI[of _ raw_fwd])
    apply (rule exI[of _ raw_bwd])
    using run lens vals apply (simp add: Let_def)
    done
qed

theorem unit_conversion_once_witness:
  "wf_cell two_branch_cell \<and>
   (\<exists>c' raw_fwd raw_bwd.
     init_branch_conds two_branch_cell = Inr c' \<and>
     length raw_fwd = 1 \<and> length raw_bwd = 1 \<and>
     raw_fwd ! 0 = compute_coupling_cond 1 2 2 1 4 \<and>
     raw_bwd ! 0 = compute_coupling_cond 2 1 1 4 1 \<and>
     branch_conds_fwd c' = Val (0 # map (\<lambda>g. g * 10 ^ 7) raw_fwd) \<and>
     branch_conds_bwd c' = Val (0 # map (\<lambda>g. g * 10 ^ 7) raw_bwd) \<and>
     summed_coupling_conds c' =
       fold (add_branch_conds two_branch_cell (map (\<lambda>g. g * 10 ^ 7) raw_fwd)
               (map (\<lambda>g. g * 10 ^ 7) raw_bwd))
         [1] (summed_coupling_conds two_branch_cell))"
  using unit_conversion_once[OF wf_two_branch_cell] wf_two_branch_cell
  by (simp add: two_branch_cell_params Let_def two_branch_cell_nbranches)

subsection \<open>Accumulation into the summed conductances\<close>

lemma sum_list_single_hit:
  fixes f :: "nat \<Rightarrow> real"
  assumes "distinct xs"
  shows "sum_list (map (\<lambda>b. if b = p then f b else 0) xs) = (if p \<in> set xs then f p else 0)"
  using assms by (induction xs) auto

lemma sum_list_if_filter:
  fixes f :: "nat \<Rightarrow> real"
  shows "sum_list (map (\<lambda>b. if P b then f b else 0) xs) = sum_list (map f (filter P xs))"
  by (induction xs) auto

lemma init_branch_conds_summed:
  assumes wf: "wf_cell c"
  shows "\<exists>c' fwd bwd.
     init_branch_conds c = Inr c' \<and>
     branch_conds_fwd c' = Val fwd \<and> branch_conds_bwd c' = Val bwd \<and>
     c' = c\<lparr>summed_coupling_conds := summed_coupling_conds c',
              branch_conds_fwd := Val fwd, branch_conds_bwd := Val bwd,
              initialized_conds := True\<rparr> \<and>
     length (summed_coupling_conds c') = nbranches c \<and>
     (\<forall>p < nbranches c.
        length (summed_coupling_conds c' ! p) = nseg c \<and>
        (\<forall>j < nseg c.
           summed_coupling_conds c' ! p ! j =
             summed_coupling_conds c ! p ! j
             + (if 1 \<le> p \<and> j = nseg c - 1 then fwd ! p else 0)
             + (if j = 0 then sum_list (map (\<lambda>k. bwd ! k) (children c p)) else 0)))"
proof -
  from init_branch_conds_wf[OF wf] obtain fwd bwd where
    run: "init_branch_conds c =
       Inr (c\<lparr>summed_coupling_conds :=
                fold (add_branch_conds c fwd bwd) (kid_branches c) (summed_coupling_conds c),
              branch_conds_fwd := Val (0 # fwd), branch_conds_bwd := Val (0 # bwd),
              initialized_conds := True\<rparr>)"
    by blast
  let ?m = "summed_coupling_conds c"
  let ?s = "fold (add_branch_conds c fwd bwd) (kid_branches c) ?m"
  let ?c' = "c\<lparr>summed_coupling_conds := ?s,
              branch_conds_fwd := Val (0 # fwd), branch_conds_bwd := Val (0 # bwd),
              initialized_conds := True\<rparr>"
  have rows: "\<forall>row \<in> set ?m. length row = nseg c" and ns: "0 < nseg c"
    and len: "length ?m = nbranches c"
    using wf by (auto simp: wf_cell_def)
  have kids: "\<forall>b \<in> set (kid_branches c).
      1 \<le> b \<and> b < length ?m \<and> 0 \<le> parent_of c b \<and> parent_of c b < int (length ?m)"
  proof
    fix b assume b: "b \<in> set (kid_branches c)"
    have "parent_of c b = parents c ! b" using wf b by (rule wf_parent_of)
    moreover have "0 \<le> parents c ! b" "parents c ! b < int (nbranches c)"
      using wf b by (auto simp: wf_cell_def)
    moreover have "1 \<le> b" "b < nbranches c" using b by (auto simp: kid_branches_def)
    ultimately show "1 \<le> b \<and> b < length ?m \<and> 0 \<le> parent_of c b \<and>
        parent_of c b < int (length ?m)"
      using len by simp
  qed
  have slen: "length ?s = nbranches c"
    using len by (simp add: fold_add_branch_conds_length)
  have srows: "\<forall>row \<in> set ?s. length row = nseg c"
    using rows by (rule fold_add_branch_conds_rows)
  have entry: "?s ! p ! j =
        ?m ! p ! j
        + (if 1 \<le> p \<and> j = nseg c - 1 then (0 # fwd) ! p else 0)
        + (if j = 0 then sum_list (map (\<lambda>k. (0 # bwd) ! k) (children c p)) else 0)"
    if p: "p < nbranches c" and j: "j < nseg c" for p j
  proof -
    have e: "?s ! p ! j =
       ?m ! p ! j
       + sum_list (map (\<lambda>b. if b = p \<and> j = nseg c - 1 then fwd ! (b - 1) else 0)
                    (kid_branches c))
       + sum_list (map (\<lambda>b. if nat (parent_of c b) = p \<and> j = 0 then bwd ! (b - 1) else 0)
                    (kid_branches c))"
      using rows ns kids p j len by (intro fold_add_branch_conds_nth) simp_all
    have s1: "sum_list (map (\<lambda>b. if b = p \<and> j = nseg c - 1 then fwd ! (b - 1) else 0)
                    (kid_branches c)) =
              (if 1 \<le> p \<and> j = nseg c - 1 then (0 # fwd) ! p else 0)"
    proof (cases "j = nseg c - 1")
      case True
      have "sum_list (map (\<lambda>b. if b = p then fwd ! (b - 1) else 0) (kid_branches c)) =
            (if p \<in> set (kid_branches c) then fwd ! (p - 1) else 0)"
        by (rule sum_list_single_hit) (simp add: kid_branches_def)
      then show ?thesis using True p by (auto simp: kid_branches_def nth_Cons')
    next
      case False
      then show ?thesis by simp
    qed
    have s2: "sum_list (map (\<lambda>b. if nat (parent_of c b) = p \<and> j = 0 then bwd ! (b - 1) else 0)
                    (kid_branches c)) =
              (if j = 0 then sum_list (map (\<lambda>k. (0 # bwd) ! k) (children c p)) else 0)"
    proof (cases "j = 0")
      case True
      have f: "filter (\<lambda>b. nat (parent_of c b) = p) (kid_branches c) = children c p"
        unfolding children_def
      proof (rule filter_cong[OF refl])
        fix b assume b: "b \<in> set (kid_branches c)"
        have "parent_of c b = parents c ! b" using wf b by (rule wf_parent_of)
        moreover have "0 \<le> parents c ! b" using wf b by (auto simp: wf_cell_def)
        ultimately show "(nat (parent_of c b) = p) = (parents c ! b = int p)" by auto
      qed
      have m: "map (\<lambda>b. bwd ! (b - 1)) (children c p) = map (\<lambda>k. (0 # bwd) ! k) (children c p)"
        by (rule map_cong[OF refl]) (auto simp: children_def kid_branches_def nth_Cons')
      have chain: "sum_list (map (\<lambda>b. if nat (parent_of c b) = p then bwd ! (b - 1) else 0)
                    (kid_branches c)) =
            sum_list (map (\<lambda>k. (0 # bwd) ! k) (children c p))"
        by (simp only: sum_list_if_filter f m)
      have cond: "(\<lambda>b. if nat (parent_of c b) = p \<and> j = 0 then bwd ! (b - 1) else 0) =
                  (\<lambda>b. if nat (parent_of c b) = p then bwd ! (b - 1) else 0)"
        using True by simp
      show ?thesis unfolding cond chain using True by simp
    next
      case False
      then show ?thesis by simp
    qed
    show ?thesis unfolding e s1 s2 by (rule refl)
  qed
  have rowlen: "length (?s ! p) = nseg c" if "p < nbranches c" for p
    using srows slen that by (simp add: all_set_conv_all_nth)
  show ?thesis
    apply (rule exI[of _ ?c'])
    apply (rule exI[of _ "0 # fwd"])
    apply (rule exI[of _ "0 # bwd"])
    using run slen rowlen entry apply simp
    done
qed

lemma chain_cell_facts:
  "nseg chain_cell = Suc 0" "nbranches chain_cell = 3"
  "kid_branches chain_cell = [Suc 0, 2]" "children chain_cell (Suc 0) = [2]"
  "summed_coupling_conds chain_cell ! Suc 0 ! 0 = 2"
  "parents chain_cell ! Suc 0 = 0" "parents chain_cell ! 2 = 1"
  "param_at chain_cell ''radius'' 0 0 = 1" "param_at chain_cell ''radius'' (Suc 0) 0 = 1"
  "param_at chain_cell ''radius'' 2 0 = 1"
  "param_at chain_cell ''length'' 0 0 = 1" "param_at chain_cell ''length'' (Suc 0) 0 = 1"
  "param_at chain_cell ''length'' 2 0 = 1"
  "param_at chain_cell ''axial_resistivity'' 0 0 = 1"
  "param_at chain_cell ''axial_resistivity'' (Suc 0) 0 = 1"
  "param_at chain_cell ''axial_resistivity'' 2 0 = 1"
  by (simp_all add: chain_cell_def example_cell_def kid_branches_def children_def upt_rec
        param_at_def)

lemma fork_cell_facts:
  "nseg fork_cell = 2" "nbranches fork_cell = 3"
  "children fork_cell 0 = [Suc 0, 2]"
  "summed_coupling_conds fork_cell ! 0 ! 0 = 1" "summed_coupling_conds fork_cell ! 0 ! Suc 0 = 2"
  "summed_coupling_conds fork_cell ! Suc 0 ! Suc 0 = 4"
  by (simp_all add: fork_cell_def example_cell_def kid_branches_def children_def upt_rec)

lemma init_branch_conds_deterministic:
  assumes "init_branch_conds c = Inr c1" "branch_conds_fwd c1 = Val f1" "branch_conds_bwd c1 = Val b1"
    and "init_branch_conds c = Inr c2" "branch_conds_fwd c2 = Val f2" "branch_conds_bwd c2 = Val b2"
  shows "c1 = c2 \<and> f1 = f2 \<and> b1 = b2"
  using assms by simp

lemma chain_cell_run:
  "\<exists>c' fwd bwd.
     init_branch_conds chain_cell = Inr c' \<and>
     branch_conds_fwd c' = Val fwd \<and> branch_conds_bwd c' = Val bwd \<and>
     fwd ! 1 = 5000000 \<and> bwd ! 2 = 5000000 \<and>
     summed_coupling_conds c' ! 1 ! 0 = 10000002"
proof -
  from init_branch_conds_summed[OF wf_chain_cell] obtain c' fwd bwd where
    r: "init_branch_conds chain_cell = Inr c'"
       "branch_conds_fwd c' = Val fwd" "branch_conds_bwd c' = Val bwd"
    and e: "\<forall>p < nbranches chain_cell.
        length (summed_coupling_conds c' ! p) = nseg chain_cell \<and>
        (\<forall>j < nseg chain_cell.
           summed_coupling_conds c' ! p ! j =
             summed_coupling_conds chain_cell ! p ! j
             + (if 1 \<le> p \<and> j = nseg chain_cell - 1 then fwd ! p else 0)
             + (if j = 0 then sum_list (map (\<lambda>k. bwd ! k) (children chain_cell p)) else 0))"
    by blast
  from init_branch_conds_values[OF wf_chain_cell] obtain c2 f2 b2 where
    r2: "init_branch_conds chain_cell = Inr c2"
       "branch_conds_fwd c2 = Val f2" "branch_conds_bwd c2 = Val b2"
    and v: "\<forall>b \<in> set (kid_branches chain_cell).
          f2 ! b =
            compute_coupling_cond
              (param_at chain_cell ''radius'' b (nseg chain_cell - 1))
              (param_at chain_cell ''radius'' (nat (parents chain_cell ! b)) 0)
              (param_at chain_cell ''axial_resistivity'' (nat (parents chain_cell ! b)) 0)
              (param_at chain_cell ''length'' b (nseg chain_cell - 1))
              (param_at chain_cell ''length'' (nat (parents chain_cell ! b)) 0) * 10 ^ 7
        \<and> b2 ! b =
            compute_coupling_cond
              (param_at chain_cell ''radius'' (nat (parents chain_cell ! b)) 0)
              (param_at chain_cell ''radius'' b (nseg chain_cell - 1))
              (param_at chain_cell ''axial_resistivity'' b (nseg chain_cell - 1))
              (param_at chain_cell ''length'' (nat (parents chain_cell ! b)) 0)
              (param_at chain_cell ''length'' b (nseg chain_cell - 1)) * 10 ^ 7"
    by blast
  have same: "f2 = fwd" "b2 = bwd"
    using init_branch_conds_deterministic[OF r r2] by simp_all
  have vals: "fwd ! 1 = 5000000" "bwd ! 2 = 5000000"
    using v unfolding same by (simp_all add: chain_cell_facts compute_coupling_cond_def)
  have "summed_coupling_conds c' ! 1 ! 0 =
          summed_coupling_conds chain_cell ! 1 ! 0 + fwd ! 1 + bwd ! 2"
    using e by (simp add: chain_cell_facts)
  then have "summed_coupling_conds c' ! 1 ! 0 = 10000002"
    using vals by (simp add: chain_cell_facts)
  then show ?thesis using r vals by blast
qed

text \<open>
  C3 as stated fails when a branch has a single compartment. In the chain of three branches,
  the only compartment of branch 1 is both its last and its first: the loop adds the forward
  conductance of branch 1 and the backward conductance of its child, branch 2, to the same
  entry, which is therefore not increased by the forward conductance alone.
\<close>

theorem summed_single_compartment_counterexample:
  "\<exists>c' fwd bwd.
     init_branch_conds chain_cell = Inr c' \<and>
     branch_conds_fwd c' = Val fwd \<and> branch_conds_bwd c' = Val bwd \<and>
     fwd ! 1 = 5000000 \<and>
     summed_coupling_conds chain_cell ! 1 ! (nseg chain_cell - 1) = 2 \<and>
     summed_coupling_conds c' ! 1 ! (nseg chain_cell - 1) = 10000002 \<and>
     summed_coupling_conds c' ! 1 ! (nseg chain_cell - 1) \<noteq>
       summed_coupling_conds chain_cell ! 1 ! (nseg chain_cell - 1) + fwd ! 1"
proof -
  from chain_cell_run obtain c' fwd bwd where
    r: "init_branch_conds chain_cell = Inr c'"
       "branch_conds_fwd c' = Val fwd" "branch_conds_bwd c' = Val bwd"
    and v: "fwd ! 1 = 5000000" "summed_coupling_conds c' ! 1 ! 0 = 10000002"
    by blast
  show ?thesis
    apply (rule exI[of _ c'])
    apply (rule exI[of _ fwd])
    apply (rule exI[of _ bwd])
    using r v apply (simp add: chain_cell_facts)
    done
qed

text \<open>
  C3, amended. After \<^verbatim>\<open>init_branch_conds\<close> on a well-formed cell the matrix keeps its shape, and
  every entry \<open>[p, j]\<close> has grown by the forward junction conductance of \<open>p\<close>, if \<open>p\<close> is not the
  root and \<open>j\<close> is the last compartment, plus the sum of the backward junction conductances of
  all children of \<open>p\<close>, if \<open>j\<close> is the first compartment. With two or more compartments in a
  branch these are two different entries, as the claim says; with one compartment the single
  entry receives both. Entries that are neither first nor last are unchanged, and the
  contributions of several children add up.
\<close>

theorem summed_coupling_conds_accumulate:
  assumes "wf_cell c"
  shows "\<exists>c' fwd bwd.
     init_branch_conds c = Inr c' \<and>
     branch_conds_fwd c' = Val fwd \<and> branch_conds_bwd c' = Val bwd \<and>
     length (summed_coupling_conds c') = nbranches c \<and>
     (\<forall>p < nbranches c.
        length (summed_coupling_conds c' ! p) = nseg c \<and>
        (\<forall>j < nseg c.
           summed_coupling_conds c' ! p ! j =
             summed_coupling_conds c ! p ! j
             + (if 1 \<le> p \<and> j = nseg c - 1 then fwd ! p else 0)
             + (if j = 0 then sum_list (map (\<lambda>k. bwd ! k) (children c p)) else 0)))"
  using init_branch_conds_summed[OF assms] by blast

theorem summed_coupling_conds_accumulate_witness:
  "wf_cell fork_cell \<and>
   (\<exists>c' fwd bwd.
     init_branch_conds fork_cell = Inr c' \<and>
     branch_conds_fwd c' = Val fwd \<and> branch_conds_bwd c' = Val bwd \<and>
     summed_coupling_conds c' ! 0 ! 0 = 1 + (bwd ! 1 + bwd ! 2) \<and>
     summed_coupling_conds c' ! 0 ! 1 = 2 \<and>
     summed_coupling_conds c' ! 1 ! 1 = 4 + fwd ! 1)"
proof -
  from summed_coupling_conds_accumulate[OF wf_fork_cell] obtain c' fwd bwd where
    r: "init_branch_conds fork_cell = Inr c'"
       "branch_conds_fwd c' = Val fwd" "branch_conds_bwd c' = Val bwd"
    and e: "\<forall>p < nbranches fork_cell.
        length (summed_coupling_conds c' ! p) = nseg fork_cell \<and>
        (\<forall>j < nseg fork_cell.
           summed_coupling_conds c' ! p ! j =
             summed_coupling_conds fork_cell ! p ! j
             + (if 1 \<le> p \<and> j = nseg fork_cell - 1 then fwd ! p else 0)
             + (if j = 0 then sum_list (map (\<lambda>k. bwd ! k) (children fork_cell p)) else 0))"
    by blast
  have "summed_coupling_conds c' ! 0 ! 0 = 1 + (bwd ! 1 + bwd ! 2)"
       "summed_coupling_conds c' ! 0 ! 1 = 2"
       "summed_coupling_conds c' ! 1 ! 1 = 4 + fwd ! 1"
    using e by (simp_all add: fork_cell_facts)
  then show ?thesis using r wf_fork_cell by blast
qed

subsection \<open>Calling the init methods twice\<close>

lemma add_branch_conds_cong:
  "parents c1 = parents c \<Longrightarrow> add_branch_conds c1 = add_branch_conds c"
  by (intro ext) (simp add: add_branch_conds_def parent_of_def)

lemma raw_branch_conds_cong:
  assumes "parents c1 = parents c" "nbranches c1 = nbranches c"
  shows "raw_branch_conds_fwd c1 = raw_branch_conds_fwd c"
    and "raw_branch_conds_bwd c1 = raw_branch_conds_bwd c"
  using assms
  by (auto intro!: ext simp: raw_branch_conds_fwd_def raw_branch_conds_bwd_def parent_of_def
        kid_branches_def)

lemma init_branch_conds_depends:
  assumes eq: "params c1 = params c" "nbranches c1 = nbranches c" "nseg c1 = nseg c"
      "parents c1 = parents c"
    and look: "params c ''axial_resistivity'' = Some va" "params c ''radius'' = Some vr"
      "params c ''length'' = Some vl"
    and resh: "reshape va (nbranches c) (nseg c) = Inr A"
      "reshape vr (nbranches c) (nseg c) = Inr R" "reshape vl (nbranches c) (nseg c) = Inr L"
    and guard: "nseg c \<noteq> 0" "kid_branches c = [] \<or> parents c \<noteq> []"
  shows "init_branch_conds c1 =
     Inr (c1\<lparr>summed_coupling_conds :=
               fold (add_branch_conds c (map (\<lambda>g. g * 10 ^ 7) (raw_branch_conds_fwd c A R L))
                       (map (\<lambda>g. g * 10 ^ 7) (raw_branch_conds_bwd c A R L)))
                 (kid_branches c) (summed_coupling_conds c1),
             branch_conds_fwd := Val (0 # map (\<lambda>g. g * 10 ^ 7) (raw_branch_conds_fwd c A R L)),
             branch_conds_bwd := Val (0 # map (\<lambda>g. g * 10 ^ 7) (raw_branch_conds_bwd c A R L)),
             initialized_conds := True\<rparr>)"
proof -
  have k: "kid_branches c1 = kid_branches c" using eq(2) by (simp add: kid_branches_def)
  have a: "add_branch_conds c1 = add_branch_conds c" using eq(4) by (rule add_branch_conds_cong)
  have rf: "raw_branch_conds_fwd c1 = raw_branch_conds_fwd c"
    and rb: "raw_branch_conds_bwd c1 = raw_branch_conds_bwd c"
    using raw_branch_conds_cong[OF eq(4) eq(2)] by simp_all
  have g: "\<not> (nseg c = 0 \<or> (kid_branches c \<noteq> [] \<and> parents c = []))"
    using guard by blast
  show ?thesis
    unfolding init_branch_conds_def lookup_param_def Let_def eq k a rf rb look
    by (simp add: bind_err_def resh g)
qed

lemma init_branch_conds_again:
  assumes "init_branch_conds c = Inr c1"
  shows "\<exists>fwd bwd.
     c1 = c\<lparr>summed_coupling_conds :=
              fold (add_branch_conds c fwd bwd) (kid_branches c) (summed_coupling_conds c),
            branch_conds_fwd := Val (0 # fwd), branch_conds_bwd := Val (0 # bwd),
            initialized_conds := True\<rparr> \<and>
     init_branch_conds c1 =
       Inr (c1\<lparr>summed_coupling_conds :=
                 fold (add_branch_conds c fwd bwd) (kid_branches c) (summed_coupling_conds c1)\<rparr>)"
proof -
  from assms obtain va A vr R vl L where
    look: "params c ''axial_resistivity'' = Some va" "params c ''radius'' = Some vr"
          "params c ''length'' = Some vl"
    and resh: "reshape va (nbranches c) (nseg c) = Inr A"
          "reshape vr (nbranches c) (nseg c) = Inr R" "reshape vl (nbranches c) (nseg c) = Inr L"
    and guard: "nseg c \<noteq> 0" "kid_branches c = [] \<or> parents c \<noteq> []"
    by (auto simp: init_branch_conds_def lookup_param_def bind_err_def Let_def
          split: option.splits sum.splits if_splits)
  let ?fwd = "map (\<lambda>g. g * 10 ^ 7) (raw_branch_conds_fwd c A R L)"
  let ?bwd = "map (\<lambda>g. g * 10 ^ 7) (raw_branch_conds_bwd c A R L)"
  have run: "init_branch_conds c =
       Inr (c\<lparr>summed_coupling_conds :=
              fold (add_branch_conds c ?fwd ?bwd) (kid_branches c) (summed_coupling_conds c),
            branch_conds_fwd := Val (0 # ?fwd), branch_conds_bwd := Val (0 # ?bwd),
            initialized_conds := True\<rparr>)"
    by (rule init_branch_conds_depends[OF refl refl refl refl look resh guard])
  have c1: "c1 = c\<lparr>summed_coupling_conds :=
              fold (add_branch_conds c ?fwd ?bwd) (kid_branches c) (summed_coupling_conds c),
            branch_conds_fwd := Val (0 # ?fwd), branch_conds_bwd := Val (0 # ?bwd),
            initialized_conds := True\<rparr>"
    using run assms by simp
  have eq: "params c1 = params c" "nbranches c1 = nbranches c" "nseg c1 = nseg c"
      "parents c1 = parents c"
    unfolding c1 by simp_all
  have upd: "c1\<lparr>branch_conds_fwd := Val (0 # ?fwd), branch_conds_bwd := Val (0 # ?bwd),
               initialized_conds := True\<rparr> = c1"
    unfolding c1 by simp
  have "init_branch_conds c1 =
     Inr (c1\<lparr>summed_coupling_conds :=
               fold (add_branch_conds c ?fwd ?bwd) (kid_branches c) (summed_coupling_conds c1),
             branch_conds_fwd := Val (0 # ?fwd), branch_conds_bwd := Val (0 # ?bwd),
             initialized_conds := True\<rparr>)"
    by (rule init_branch_conds_depends[OF eq look resh guard])
  also have "c1\<lparr>summed_coupling_conds :=
               fold (add_branch_conds c ?fwd ?bwd) (kid_branches c) (summed_coupling_conds c1),
             branch_conds_fwd := Val (0 # ?fwd), branch_conds_bwd := Val (0 # ?bwd),
             initialized_conds := True\<rparr> =
           c1\<lparr>summed_coupling_conds :=
               fold (add_branch_conds c ?fwd ?bwd) (kid_branches c) (summed_coupling_conds c1)\<rparr>"
    unfolding c1 by simp
  finally have again: "init_branch_conds c1 =
       Inr (c1\<lparr>summed_coupling_conds :=
                 fold (add_branch_conds c ?fwd ?bwd) (kid_branches c)
                   (summed_coupling_conds c1)\<rparr>)" .
  show ?thesis
    apply (rule exI[of _ ?fwd])
    apply (rule exI[of _ ?bwd])
    apply (rule conjI)
     apply (rule c1)
    apply (rule again)
    done
qed

lemma init_morph_again:
  assumes "init_morph h c = Inr c1"
  shows "initialized_morph c1 \<and> init_morph h c1 = Inr c1"
  using assms
  by (auto simp: init_morph_def bind_err_def split: sum.splits)

lemma two_branch_cell_levels: "compute_levels_spec [- 1, 0] = Inr [0, 1]"
  by (simp add: compute_levels_spec_def upt_conv_Cons numeral_2_eq_2)

lemma two_branch_cell_morph:
  "\<exists>c1. init_morph example_helpers two_branch_cell = Inr c1 \<and> levels c1 = Val [0, 1]"
  by (simp add: init_morph_def example_helpers_def two_branch_cell_def example_cell_def
        two_branch_cell_levels bind_err_def upt_conv_Cons gather_all_def)

lemma two_branch_cell_twice:
  "\<exists>c1 c2. init_branch_conds two_branch_cell = Inr c1 \<and> initialized_conds c1 \<and>
      init_branch_conds c1 = Inr c2 \<and>
      summed_coupling_conds two_branch_cell = [[3], [5]] \<and>
      summed_coupling_conds c1 = [[625003], [2500005]] \<and>
      summed_coupling_conds c2 = [[1250003], [5000005]]"
proof -
  from two_branch_cell_conds obtain c1 f b where
    r: "init_branch_conds two_branch_cell = Inr c1"
       "branch_conds_fwd c1 = Val f" "branch_conds_bwd c1 = Val b"
    and v: "f ! 1 = 2500000" "b ! 1 = 625000"
    by blast
  from init_branch_conds_again[OF r(1)] obtain fwd bwd where
    c1: "c1 = two_branch_cell\<lparr>summed_coupling_conds :=
              fold (add_branch_conds two_branch_cell fwd bwd) (kid_branches two_branch_cell)
                (summed_coupling_conds two_branch_cell),
            branch_conds_fwd := Val (0 # fwd), branch_conds_bwd := Val (0 # bwd),
            initialized_conds := True\<rparr>"
    and again: "init_branch_conds c1 =
       Inr (c1\<lparr>summed_coupling_conds :=
                 fold (add_branch_conds two_branch_cell fwd bwd) (kid_branches two_branch_cell)
                   (summed_coupling_conds c1)\<rparr>)"
    by blast
  have "f = 0 # fwd" "b = 0 # bwd" using r(2,3) c1 by simp_all
  then have fb: "fwd ! 0 = 2500000" "bwd ! 0 = 625000" using v by simp_all
  have p: "parent_of two_branch_cell (Suc 0) = 0"
    by (simp add: parent_of_def gather_def norm_index_def two_branch_cell_def example_cell_def)
  have s0: "summed_coupling_conds two_branch_cell = [[3], [5]]"
    by (simp add: two_branch_cell_def example_cell_def)
  have step: "add_branch_conds two_branch_cell fwd bwd (Suc 0) [[x], [y]] =
        [[x + 625000], [y + 2500000]]" for x y
    by (simp add: add_branch_conds_def at_add_def norm_index_def p fb Let_def)
  have s1: "summed_coupling_conds c1 = [[625003], [2500005]]"
    unfolding c1 by (simp add: two_branch_cell_params s0 step)
  have s2: "fold (add_branch_conds two_branch_cell fwd bwd) (kid_branches two_branch_cell)
                   (summed_coupling_conds c1) = [[1250003], [5000005]]"
    unfolding s1 by (simp add: two_branch_cell_params step)
  have i: "initialized_conds c1" unfolding c1 by simp
  show ?thesis
    apply (rule exI[of _ c1])
    apply (rule exI[of _ "c1\<lparr>summed_coupling_conds :=
                 fold (add_branch_conds two_branch_cell fwd bwd) (kid_branches two_branch_cell)
                   (summed_coupling_conds c1)\<rparr>"])
    using r(1) i again s0 s1 s2 apply simp
    done
qed

text \<open>
  C5 as stated fails for \<^verbatim>\<open>init_branch_conds\<close>. The method does not look at
  \<^verbatim>\<open>initialized_conds\<close>: on the cell with one child, whose flag the first call has set, the second
  call adds the junction conductances to \<^verbatim>\<open>summed_coupling_conds\<close> once more.
\<close>

theorem repeated_init_branch_conds_counterexample:
  "\<exists>c1 c2. init_branch_conds two_branch_cell = Inr c1 \<and> initialized_conds c1 \<and>
      init_branch_conds c1 = Inr c2 \<and>
      summed_coupling_conds c1 = [[625003], [2500005]] \<and>
      summed_coupling_conds c2 = [[1250003], [5000005]] \<and>
      summed_coupling_conds c2 \<noteq> summed_coupling_conds c1"
proof -
  from two_branch_cell_twice obtain c1 c2 where
    "init_branch_conds two_branch_cell = Inr c1" "initialized_conds c1"
    "init_branch_conds c1 = Inr c2"
    "summed_coupling_conds c1 = [[625003], [2500005]]"
    "summed_coupling_conds c2 = [[1250003], [5000005]]"
    by blast
  then show ?thesis
    apply -
    apply (rule exI[of _ c1])
    apply (rule exI[of _ c2])
    apply simp
    done
qed

text \<open>
  C5, amended. Neither init method reads its flag. A second \<^verbatim>\<open>init_morph\<close> computes the same
  values from the unchanged \<^verbatim>\<open>parents\<close> and leaves the whole object as the first call left it. A
  second \<^verbatim>\<open>init_branch_conds\<close> returns, leaves \<^verbatim>\<open>branch_conds_fwd\<close>, \<^verbatim>\<open>branch_conds_bwd\<close>,
  \<^verbatim>\<open>levels\<close> and \<^verbatim>\<open>kid_inds_in_each_level\<close> as they are, and runs the loop of additions over
  \<^verbatim>\<open>summed_coupling_conds\<close> a second time with the same conductances.
\<close>

theorem repeated_initialisation:
  "(init_morph h c = Inr c1 \<longrightarrow> initialized_morph c1 \<and> init_morph h c1 = Inr c1) \<and>
   (init_branch_conds c = Inr c2 \<longrightarrow>
      initialized_conds c2 \<and>
      (\<exists>c3 fwd bwd.
          init_branch_conds c2 = Inr c3 \<and>
          branch_conds_fwd c2 = Val (0 # fwd) \<and> branch_conds_bwd c2 = Val (0 # bwd) \<and>
          branch_conds_fwd c3 = branch_conds_fwd c2 \<and>
          branch_conds_bwd c3 = branch_conds_bwd c2 \<and>
          levels c3 = levels c2 \<and>
          kid_inds_in_each_level c3 = kid_inds_in_each_level c2 \<and>
          summed_coupling_conds c2 =
            fold (add_branch_conds c fwd bwd) (kid_branches c) (summed_coupling_conds c) \<and>
          summed_coupling_conds c3 =
            fold (add_branch_conds c fwd bwd) (kid_branches c) (summed_coupling_conds c2)))"
proof (intro conjI impI)
  assume "init_morph h c = Inr c1"
  then show "initialized_morph c1" "init_morph h c1 = Inr c1"
    using init_morph_again by blast+
next
  assume a: "init_branch_conds c = Inr c2"
  from init_branch_conds_again[OF a] obtain fwd bwd where
    c2: "c2 = c\<lparr>summed_coupling_conds :=
              fold (add_branch_conds c fwd bwd) (kid_branches c) (summed_coupling_conds c),
            branch_conds_fwd := Val (0 # fwd), branch_conds_bwd := Val (0 # bwd),
            initialized_conds := True\<rparr>"
    and again: "init_branch_conds c2 =
       Inr (c2\<lparr>summed_coupling_conds :=
                 fold (add_branch_conds c fwd bwd) (kid_branches c) (summed_coupling_conds c2)\<rparr>)"
    by blast
  show "initialized_conds c2" by (subst c2) simp
  have f: "branch_conds_fwd c2 = Val (0 # fwd)" "branch_conds_bwd c2 = Val (0 # bwd)"
    "summed_coupling_conds c2 =
            fold (add_branch_conds c fwd bwd) (kid_branches c) (summed_coupling_conds c)"
    by (subst c2, simp)+
  show "\<exists>c3 fwd bwd.
          init_branch_conds c2 = Inr c3 \<and>
          branch_conds_fwd c2 = Val (0 # fwd) \<and> branch_conds_bwd c2 = Val (0 # bwd) \<and>
          branch_conds_fwd c3 = branch_conds_fwd c2 \<and>
          branch_conds_bwd c3 = branch_conds_bwd c2 \<and>
          levels c3 = levels c2 \<and>
          kid_inds_in_each_level c3 = kid_inds_in_each_level c2 \<and>
          summed_coupling_conds c2 =
            fold (add_branch_conds c fwd bwd) (kid_branches c) (summed_coupling_conds c) \<and>
          summed_coupling_conds c3 =
            fold (add_branch_conds c fwd bwd) (kid_branches c) (summed_coupling_conds c2)"
    apply (rule exI[of _ "c2\<lparr>summed_coupling_conds :=
                 fold (add_branch_conds c fwd bwd) (kid_branches c) (summed_coupling_conds c2)\<rparr>"])
    apply (rule exI[of _ fwd])
    apply (rule exI[of _ bwd])
    using again f apply simp
    done
qed

theorem repeated_initialisation_witness:
  "\<exists>c1 c2.
     init_morph example_helpers two_branch_cell = Inr c1 \<and>
     init_branch_conds two_branch_cell = Inr c2 \<and>
     initialized_morph c1 \<and> init_morph example_helpers c1 = Inr c1 \<and>
     initialized_conds c2 \<and>
     (\<exists>c3. init_branch_conds c2 = Inr c3 \<and>
          branch_conds_fwd c3 = branch_conds_fwd c2 \<and>
          branch_conds_bwd c3 = branch_conds_bwd c2 \<and>
          levels c3 = levels c2 \<and>
          kid_inds_in_each_level c3 = kid_inds_in_each_level c2)"
proof -
  from two_branch_cell_morph obtain c1 where
    m: "init_morph example_helpers two_branch_cell = Inr c1" by blast
  from two_branch_cell_twice obtain c2 where
    b: "init_branch_conds two_branch_cell = Inr c2" by blast
  from repeated_initialisation[of example_helpers two_branch_cell c1 c2] m b
  have m2: "initialized_morph c1" "init_morph example_helpers c1 = Inr c1"
    and i2: "initialized_conds c2"
    and ex: "\<exists>c3 fwd bwd.
          init_branch_conds c2 = Inr c3 \<and>
          branch_conds_fwd c2 = Val (0 # fwd) \<and> branch_conds_bwd c2 = Val (0 # bwd) \<and>
          branch_conds_fwd c3 = branch_conds_fwd c2 \<and>
          branch_conds_bwd c3 = branch_conds_bwd c2 \<and>
          levels c3 = levels c2 \<and>
          kid_inds_in_each_level c3 = kid_inds_in_each_level c2 \<and>
          summed_coupling_conds c2 =
            fold (add_branch_conds two_branch_cell fwd bwd) (kid_branches two_branch_cell)
              (summed_coupling_conds two_branch_cell) \<and>
          summed_coupling_conds c3 =
            fold (add_branch_conds two_branch_cell fwd bwd) (kid_branches two_branch_cell)
              (summed_coupling_conds c2)"
    by simp_all
  from ex obtain c3 where
    c3: "init_branch_conds c2 = Inr c3" "branch_conds_fwd c3 = branch_conds_fwd c2"
      "branch_conds_bwd c3 = branch_conds_bwd c2" "levels c3 = levels c2"
      "kid_inds_in_each_level c3 = kid_inds_in_each_level c2"
    by auto
  show ?thesis
    apply (rule exI[of _ c1])
    apply (rule exI[of _ c2])
    apply (intro conjI)
         apply (rule m)
        apply (rule b)
       apply (rule m2(1))
      apply (rule m2(2))
     apply (rule i2)
    apply (rule exI[of _ c3])
    apply (simp only: c3 simp_thms)
    done
qed

subsection \<open>Levels of the branches\<close>

lemma valid_parents_length: "valid_parents n ps \<Longrightarrow> length ps = n \<and> 0 < n \<and> ps ! 0 = - 1"
  by (simp add: valid_parents_def)

lemma valid_parents_range:
  "valid_parents n ps \<Longrightarrow> i \<in> {1..<n} \<Longrightarrow> 0 \<le> ps ! i \<and> ps ! i < int n"
  unfolding valid_parents_def by blast

lemma valid_parents_acyclic:
  "valid_parents n ps \<Longrightarrow> i \<in> {1..<n} \<Longrightarrow> k \<in> {1..n} \<Longrightarrow>
     ((\<lambda>j. nat (ps ! j)) ^^ k) i \<noteq> i"
  unfolding valid_parents_def by blast

lemma level_of_mono:
  "level_of ps f i = Some d \<Longrightarrow> level_of ps (f + k) i = Some d"
proof (induction f arbitrary: i d)
  case 0
  then show ?case by simp
next
  case (Suc f)
  show ?case
  proof (cases "length ps \<le> i \<or> ps ! i = - 1 \<or> ps ! i < 0")
    case True
    then show ?thesis using Suc.prems by (auto split: if_splits)
  next
    case False
    then obtain d' where d': "level_of ps f (nat (ps ! i)) = Some d'" "d = Suc d'"
      using Suc.prems by (auto split: if_splits)
    have "level_of ps (f + k) (nat (ps ! i)) = Some d'" using d'(1) by (rule Suc.IH)
    then show ?thesis using False d'(2) by simp
  qed
qed

lemma level_of_reaches_root:
  assumes v: "valid_parents n ps"
  shows "i < n \<Longrightarrow> ((\<lambda>j. nat (ps ! j)) ^^ k) i = 0 \<Longrightarrow> \<exists>d. level_of ps (Suc k) i = Some d"
proof (induction k arbitrary: i)
  case 0
  then show ?case using valid_parents_length[OF v] by simp
next
  case (Suc k)
  show ?case
  proof (cases "i = 0")
    case True
    then show ?thesis using valid_parents_length[OF v] by simp
  next
    case False
    then have "i \<in> {1..<n}" using Suc.prems(1) by simp
    then have r: "0 \<le> ps ! i" "ps ! i < int n" "length ps = n"
      using valid_parents_range[OF v] valid_parents_length[OF v] by simp_all
    have "((\<lambda>j. nat (ps ! j)) ^^ k) (nat (ps ! i)) = 0"
      using Suc.prems(2) by (simp only: funpow_Suc_right o_apply)
    moreover have "nat (ps ! i) < n" using r by simp
    ultimately obtain d where "level_of ps (Suc k) (nat (ps ! i)) = Some d"
      using Suc.IH by blast
    then show ?thesis using r Suc.prems(1) by simp
  qed
qed

lemma parent_chain_hits_root:
  assumes v: "valid_parents n ps" and i: "i < n"
  shows "\<exists>k < n. ((\<lambda>j. nat (ps ! j)) ^^ k) i = 0"
proof (rule ccontr)
  let ?par = "\<lambda>j. nat (ps ! j)"
  let ?f = "\<lambda>k. (?par ^^ k) i"
  assume neg: "\<not> (\<exists>k < n. ?f k = 0)"
  have nz: "?f k \<noteq> 0" if "k < n" for k
  proof
    assume "?f k = 0"
    then have "\<exists>k < n. ?f k = 0" using that by (intro exI[of _ k]) simp
    then show False using neg by simp
  qed
  have range: "?par x < n" if "x \<in> {1..<n}" for x
    using valid_parents_range[OF v that] by (auto simp: nat_less_iff)
  have acyc: "(?par ^^ k) x \<noteq> x" if "x \<in> {1..<n}" "k \<in> {1..n}" for x k
    using valid_parents_acyclic[OF v that] .
  have inr: "?f k \<in> {1..<n}" if "k < n" for k
    using that
  proof (induction k)
    case 0
    then show ?case using i nz[of 0] by simp
  next
    case (Suc k)
    then have "?f k \<in> {1..<n}" by simp
    then have "?par (?f k) < n" by (rule range)
    moreover have "?f (Suc k) \<noteq> 0" using Suc.prems by (rule nz)
    ultimately show ?case by simp
  qed
  have "?f ` {0..<n} \<subseteq> {1..<n}" using inr by auto
  then have "card (?f ` {0..<n}) \<le> card {1..<n}" by (intro card_mono) simp_all
  moreover have "0 < n" using i by simp
  ultimately have "card (?f ` {0..<n}) < card {0..<n}" by simp
  then have "\<not> inj_on ?f {0..<n}" by (rule pigeonhole)
  then obtain a b where ab: "a < n" "b < n" "a \<noteq> b" "?f a = ?f b"
    by (auto simp: inj_on_def)
  have cyc: False if lt: "a' < b'" and b': "b' < n" and eq: "?f a' = ?f b'" for a' b'
  proof -
    have "(?par ^^ ((b' - a') + a')) i = (?par ^^ (b' - a')) ((?par ^^ a') i)"
      by (simp only: funpow_add o_apply)
    moreover have "(b' - a') + a' = b'" using lt by linarith
    ultimately have "?f b' = (?par ^^ (b' - a')) (?f a')" by simp
    then have "(?par ^^ (b' - a')) (?f a') = ?f a'" using eq by simp
    moreover have "?f a' \<in> {1..<n}"
    proof -
      have "a' < n" using lt b' by linarith
      then show ?thesis by (rule inr)
    qed
    moreover have "b' - a' \<in> {1..n}"
    proof -
      have "1 \<le> b' - a'" "b' - a' \<le> n" using lt b' by linarith+
      then show ?thesis by simp
    qed
    ultimately show False using acyc by blast
  qed
  show False
  proof (cases "a < b")
    case True
    then show ?thesis using cyc[of a b] ab by simp
  next
    case False
    then have "b < a" using ab(3) by linarith
    then show ?thesis using cyc[of b a] ab by simp
  qed
qed

lemma level_of_total:
  assumes v: "valid_parents n ps" and i: "i < n"
  shows "\<exists>d. level_of ps n i = Some d"
proof -
  from parent_chain_hits_root[OF v i] obtain k where
    k: "k < n" "((\<lambda>j. nat (ps ! j)) ^^ k) i = 0" by blast
  from level_of_reaches_root[OF v i k(2)] obtain d where
    d: "level_of ps (Suc k) i = Some d" by blast
  have "n = Suc k + (n - Suc k)" using k(1) by simp
  then show ?thesis using level_of_mono[OF d, of "n - Suc k"] by simp
qed

lemma level_of_parent_less:
  assumes v: "valid_parents n ps" and i: "i \<in> {1..<n}"
  shows "the (level_of ps n (nat (ps ! i))) < the (level_of ps n i)"
proof -
  have r: "0 \<le> ps ! i" "ps ! i < int n" "length ps = n" "i < n"
    using valid_parents_range[OF v i] valid_parents_length[OF v] i by simp_all
  have r5: "ps ! i \<noteq> - 1" using r(1) by simp
  obtain m where n: "n = Suc m" using r(4) by (cases n) simp_all
  from level_of_total[OF v r(4)] obtain d where d: "level_of ps n i = Some d" by blast
  then have "map_option Suc (level_of ps m (nat (ps ! i))) = Some d"
    using r r5 unfolding n by simp
  then obtain d' where d': "level_of ps m (nat (ps ! i)) = Some d'" "d = Suc d'"
    by auto
  have "level_of ps (m + 1) (nat (ps ! i)) = Some d'" using d'(1) by (rule level_of_mono)
  then have "level_of ps n (nat (ps ! i)) = Some d'" unfolding n by simp
  then show ?thesis using d d'(2) by simp
qed

lemma compute_levels_spec_valid:
  assumes v: "valid_parents n ps"
  shows "compute_levels_spec ps = Inr (map (\<lambda>i. the (level_of ps n i)) [0..<n])"
proof -
  have len: "length ps = n" using valid_parents_length[OF v] by simp
  have "list_all (\<lambda>l. l \<noteq> None) (map (level_of ps n) [0..<n])"
    using level_of_total[OF v] by (auto simp: list_all_iff)
  then show ?thesis by (simp add: compute_levels_spec_def len Let_def comp_def)
qed

lemma init_morph_levels:
  assumes "init_morph h c = Inr c'" "compute_levels h (parents c) = Inr lv"
  shows "levels c' = Val lv"
  using assms by (auto simp: init_morph_def bind_err_def split: sum.splits)

lemma unsorted_cell_levels: "compute_levels_spec [- 1, 2, 0] = Inr [0, 2, 1]"
  by (simp add: compute_levels_spec_def upt_conv_Cons numeral_3_eq_3)

lemma unsorted_cell_valid: "valid_parents 3 [- 1, 2, 0]"
  unfolding valid_parents_def
  apply (intro conjI)
      apply simp
     apply simp
    apply simp
   apply (simp add: Ball_def less_Suc_eq numeral_3_eq_3 nth_Cons')
   apply (auto simp: numeral_3_eq_3 less_Suc_eq le_Suc_eq nth_Cons')
  done

lemma example_helpers_levels: "compute_levels example_helpers = compute_levels_spec"
  by (simp add: example_helpers_def)

lemma unsorted_cell_parents: "parents unsorted_cell = [- 1, 2, 0]" "nbranches unsorted_cell = 3"
  by (simp_all add: unsorted_cell_def example_cell_def)

text \<open>
  C9. For every valid \<^verbatim>\<open>parents\<close> array (one entry for each branch, \<open>-1\<close> for branch 0, every other
  entry a branch index, no branch its own ancestor) the level computation returns, the root has
  level 0, the level of the parent of every other branch is strictly below the level of the
  branch, and these are the levels that \<^verbatim>\<open>init_morph\<close> stores whenever it returns. The levels are
  those of the level function described above, which stands for \<^verbatim>\<open>compute_levels\<close> of
  \<^verbatim>\<open>neurax.cell\<close>.
\<close>

theorem levels_increase_along_parents:
  assumes "valid_parents (nbranches c) (parents c)"
    and "compute_levels h = compute_levels_spec"
  shows "\<exists>lv. compute_levels h (parents c) = Inr lv \<and> length lv = nbranches c \<and>
           lv ! 0 = 0 \<and>
           (\<forall>i \<in> {1..<nbranches c}. lv ! nat (parents c ! i) < lv ! i) \<and>
           (\<forall>c'. init_morph h c = Inr c' \<longrightarrow> levels c' = Val lv)"
proof -
  let ?n = "nbranches c" and ?ps = "parents c"
  let ?lv = "map (\<lambda>i. the (level_of ?ps ?n i)) [0..<?n]"
  note v = assms(1)
  have run: "compute_levels h ?ps = Inr ?lv"
    using compute_levels_spec_valid[OF v] assms(2) by simp
  have n: "0 < ?n" "?ps ! 0 = - 1" "length ?ps = ?n"
    using valid_parents_length[OF v] by simp_all
  obtain m where m: "?n = Suc m" using n(1) by (cases ?n) simp_all
  have "level_of ?ps (Suc m) 0 = Some 0" using n(2,3) m by simp
  then have "level_of ?ps ?n 0 = Some 0" using m by simp
  then have root: "?lv ! 0 = 0" using n(1) by simp
  have inc: "?lv ! nat (?ps ! i) < ?lv ! i" if i: "i \<in> {1..<?n}" for i
  proof -
    have "nat (?ps ! i) < ?n" using valid_parents_range[OF v i] by (auto simp: nat_less_iff)
    moreover have "i < ?n" using i by simp
    ultimately show ?thesis using level_of_parent_less[OF v i] by simp
  qed
  have stored: "levels c' = Val ?lv" if "init_morph h c = Inr c'" for c'
    using that run by (rule init_morph_levels)
  have len: "length ?lv = ?n" by simp
  from run len root inc stored show ?thesis by blast
qed

lemma unsorted_cell_morph: "\<exists>c1. init_morph example_helpers unsorted_cell = Inr c1"
  by (simp add: init_morph_def example_helpers_def unsorted_cell_def example_cell_def
        unsorted_cell_levels bind_err_def upt_conv_Cons gather_all_def)

theorem levels_increase_along_parents_witness:
  "valid_parents (nbranches unsorted_cell) (parents unsorted_cell) \<and>
   compute_levels example_helpers = compute_levels_spec \<and>
   parents unsorted_cell = [- 1, 2, 0] \<and>
   compute_levels example_helpers (parents unsorted_cell) = Inr [0, 2, 1] \<and>
   (\<exists>c'. init_morph example_helpers unsorted_cell = Inr c' \<and> levels c' = Val [0, 2, 1])"
proof -
  have v: "valid_parents (nbranches unsorted_cell) (parents unsorted_cell)"
    using unsorted_cell_valid by (simp add: unsorted_cell_parents)
  from levels_increase_along_parents[OF v example_helpers_levels]
  obtain lv where
    lv: "compute_levels example_helpers (parents unsorted_cell) = Inr lv"
    and st: "\<forall>c'. init_morph example_helpers unsorted_cell = Inr c' \<longrightarrow> levels c' = Val lv"
    by blast
  have e: "lv = [0, 2, 1]"
    using lv unsorted_cell_levels by (simp add: example_helpers_levels unsorted_cell_parents)
  from unsorted_cell_morph obtain c' where c': "init_morph example_helpers unsorted_cell = Inr c'"
    by blast
  have l: "levels c' = Val [0, 2, 1]" using st c' e by simp
  have r: "compute_levels example_helpers (parents unsorted_cell) = Inr [0, 2, 1]"
    using lv e by simp
  have "\<exists>c'. init_morph example_helpers unsorted_cell = Inr c' \<and> levels c' = Val [0, 2, 1]"
    using c' l by (intro exI[of _ c']) simp
  with v example_helpers_levels unsorted_cell_parents(1) r show ?thesis by simp
qed

end
